theory Spec2Isabelle
  imports Main "HOL-Library.Monad_Syntax" "HOL-Library.Word"
begin

unbundle bit_operations_syntax

section \<open>Messages\<close>

text \<open>
  A message is an object with a code, a position and a length. The parser builds the
  ones below by their constructors; \<open>HostMessage\<close> stands for any other message object a
  modifier's lifecycle hook returns (code, position, length). Positions are JavaScript
  numbers that may be negative (\<open>end: -1\<close> on a node that was never closed), so they
  are integers.
\<close>

datatype msg =
    ExpectedMessage int string
  | UnknownModifierMessage int int
  | UnclosedInlineModifierMessage int string
  | UnnecessaryNewlineMessage int int
  | NewBlockShouldBeOnNewlineMessage int
  | ContentShouldBeOnNewlineMessage int
  | ReachedReparseLimitMessage int int int string
  | InvalidArgumentMessage int int
  | NameAlreadyDefinedMessage int int string
  | ReferredMessage msg int int
  | HostMessage nat int int

section \<open>Definitions and nodes\<close>

text \<open>
  Modelled from the spec: the flag bits \<open>Normal | Marker | Preformatted\<close> of a modifier
  definition (the enum \<open>ModifierFlags\<close> is imported by the parser, its declaration is not
  part of the sources at hand).
\<close>

definition ModifierFlags_Normal :: nat where "ModifierFlags_Normal = 0"
definition ModifierFlags_Preformatted :: nat where "ModifierFlags_Preformatted = 1"
definition ModifierFlags_Marker :: nat where "ModifierFlags_Marker = 2"

text \<open>\<open>(v & f) === f\<close>: JavaScript's \<open>&\<close> converts both operands to 32-bit integers and
  gives a signed 32-bit integer, which is then compared with the number \<open>f\<close> itself.\<close>

definition has :: "nat \<Rightarrow> nat \<Rightarrow> bool" where
  "has v f = (sint ((word_of_nat v :: 32 word) AND word_of_nat f) = int f)"

text \<open>
  A modifier definition is an object; \<open>ident\<close> is its identity. Its optional lifecycle
  hooks are functions over nodes, so they are kept beside the definition, in the
  environment \<open>hooks_of\<close> below, and looked up by the definition.
\<close>

record moddef =
  ident :: nat
  name :: string
  flags :: nat
  delayContentExpansion :: bool
  alwaysTryExpand :: bool

record interp =
  iname :: string
  postfix :: string

datatype argent =
    AText int int string
  | AEscaped int int string
  | AInterp interp marg int int
and marg = MArg int int "argent list"

datatype kind = Block | Inline | System

text \<open>The fields of a modifier node other than its \<open>content\<close> and \<open>expansion\<close>.\<close>

record 's modinfo =
  mtype :: kind
  mmod :: moddef
  mhead :: "int \<times> int"
  marguments :: "marg list"
  mstate :: "'s option"
  mstart :: int
  mend :: int

text \<open>
  \<open>ModifierN m content expansion\<close>: \<open>expansion = None\<close> is JavaScript's \<open>undefined\<close>.
  \<open>PreN start end content_start content_end text\<close>.
\<close>

datatype 's node =
    RootN int int "'s node list"
  | ParagraphN int int "'s node list"
  | PreN int int int int string
  | TextN int int string
  | EscapedN int int string
  | ModifierN "'s modinfo" "'s node list" "'s node list option"

section \<open>stripDocument\<close>

fun stripNode :: "'s node \<Rightarrow> 's node list" where
  "stripNode (PreN s e cs ce t) = [PreN s e cs ce t]"
| "stripNode (TextN s e t) = [TextN s e t]"
| "stripNode (EscapedN s e t) = [EscapedN s e t]"
| "stripNode (ModifierN m content expansion) =
     (if mtype m = System then []
      else (case expansion of
              Some x \<Rightarrow> concat (map stripNode x)
            | None \<Rightarrow> [ModifierN m (concat (map stripNode content)) None]))"
| "stripNode (ParagraphN s e content) = [ParagraphN s e (concat (map stripNode content))]"
| "stripNode (RootN s e content) = [RootN s e (concat (map stripNode content))]"

record 's document =
  root :: "'s node"
  doc_messages :: "msg list"

text \<open>\<open>doc.root = stripNode(doc.root)[0]\<close>; reading index 0 of an empty array gives
  \<open>undefined\<close>, which is \<open>None\<close> here.\<close>

definition stripDocument :: "'s document \<Rightarrow> 's document option" where
  "stripDocument doc =
     (case stripNode (root doc) of
        [] \<Rightarrow> None
      | r # _ \<Rightarrow> Some (doc\<lparr>root := r\<rparr>))"

text \<open>
  Modelled from the spec: \<open>Document.toStripped\<close> (the \<open>Document\<close> class is not part of the
  sources at hand) returns a copy of the document, stripped by \<open>stripDocument\<close>, and
  leaves the receiver as it is. Trees are values here, so the copy is the document.
\<close>

definition toStripped :: "'s document \<Rightarrow> 's document option" where
  "toStripped doc = stripDocument doc"

text \<open>
  What stripping a node is to give, in words of its own: a system modifier gives nothing;
  a block or inline modifier with an expansion gives what its expansion's nodes give, in
  order; one without gives itself, its content replaced by what the content's nodes give;
  a paragraph or root likewise; a text, escaped or preformatted node gives itself.
\<close>

fun stripped :: "'s node \<Rightarrow> 's node list" where
  "stripped (ModifierN m content expansion) =
     (case (mtype m, expansion) of
        (System, _) \<Rightarrow> []
      | (_, Some ex) \<Rightarrow> concat (map stripped ex)
      | (_, None) \<Rightarrow> [ModifierN m (concat (map stripped content)) None])"
| "stripped (ParagraphN s e content) = [ParagraphN s e (concat (map stripped content))]"
| "stripped (RootN s e content) = [RootN s e (concat (map stripped content))]"
| "stripped leaf = [leaf]"

text \<open>The text a reader of the tree sees: of a modifier node its expansion's if it has one
  and its content's otherwise, nothing of a system modifier.\<close>

fun visible_text :: "'s node \<Rightarrow> string" where
  "visible_text (TextN s e t) = t"
| "visible_text (EscapedN s e t) = t"
| "visible_text (PreN s e cs ce t) = t"
| "visible_text (ParagraphN s e content) = concat (map visible_text content)"
| "visible_text (RootN s e content) = concat (map visible_text content)"
| "visible_text (ModifierN m content expansion) =
     (if mtype m = System then []
      else (case expansion of
              Some ex \<Rightarrow> concat (map visible_text ex)
            | None \<Rightarrow> concat (map visible_text content)))"

text \<open>What the stripped tree is checked for: nodes reachable through \<open>content\<close> and
  \<open>expansion\<close>.\<close>

fun subnodes :: "'s node \<Rightarrow> 's node list" where
  "subnodes (RootN s e c) = RootN s e c # concat (map subnodes c)"
| "subnodes (ParagraphN s e c) = ParagraphN s e c # concat (map subnodes c)"
| "subnodes (ModifierN m c x) =
     ModifierN m c x # concat (map subnodes c)
       @ (case x of None \<Rightarrow> [] | Some xs \<Rightarrow> concat (map subnodes xs))"
| "subnodes n = [n]"

fun is_system :: "'s node \<Rightarrow> bool" where
  "is_system (ModifierN m c x) = (mtype m = System)"
| "is_system _ = False"

fun has_expansion :: "'s node \<Rightarrow> bool" where
  "has_expansion (ModifierN m c x) = (x \<noteq> None)"
| "has_expansion _ = False"

fun is_modifier :: "'s node \<Rightarrow> bool" where
  "is_modifier (ModifierN m c x) = True"
| "is_modifier _ = False"

section \<open>Configuration, context and parser state\<close>

text \<open>
  The four registries are ordered maps from names to definitions (association lists in
  insertion order). \<open>reparseDepthLimit\<close> is the scalar of the configuration; no code at
  hand writes it, and it is kept in the environment \<open>penv\<close> beside the hooks, so that
  the part of the context a hook may replace (\<open>cxt\<close>) does not contain it.
\<close>

record config =
  blockModifiers :: "(string \<times> moddef) list"
  inlineModifiers :: "(string \<times> moddef) list"
  systemModifiers :: "(string \<times> moddef) list"
  argumentInterpolators :: "(string \<times> interp) list"

record 't cxt =
  config :: config
  delayDepth :: int
  store :: 't

text \<open>
  A hook receives the node and the context and returns its messages. It may write the
  node and the context: \<open>writes\<close> holds what it assigned to the node's \<open>state\<close>,
  \<open>content\<close> and \<open>expansion\<close> (\<open>None\<close> for a field it left alone; a change to the
  elements of \<open>content\<close> counts as an assignment), and the context it leaves is returned
  (the registries, \<open>delayDepth\<close>, the store). \<open>expand\<close> returns, instead of messages,
  \<open>undefined\<close>, an array of nodes, or the node's own \<open>content\<close> array.

  Trees are values here: apart from the one case of \<open>expand\<close> returning
  \<open>node.content\<close> itself, an array a hook assigns or returns shares no node object with
  another array (the spec has a modifier node own its expansion tree exclusively).
\<close>

record 's writes =
  w_state :: "'s option option"
  w_content :: "'s node list option"
  w_expansion :: "'s node list option option"

datatype 's returned = Undefined | Nodes "'s node list" | ContentArray

type_synonym ('s, 't) hook = "'s node \<Rightarrow> 't cxt \<Rightarrow> msg list \<times> 's writes \<times> 't cxt"

type_synonym ('s, 't) expand_hook =
  "'s node \<Rightarrow> 't cxt \<Rightarrow> 's returned \<times> 's writes \<times> 't cxt"

record ('s, 't) hooks =
  beforeParseContent :: "('s, 't) hook option"
  afterParseContent :: "('s, 't) hook option"
  beforeProcessExpansion :: "('s, 't) hook option"
  afterProcessExpansion :: "('s, 't) hook option"
  prepareExpand :: "('s, 't) hook option"
  expand_hook :: "('s, 't) expand_hook option"

record ('s, 't) penv =
  hooks_of :: "moddef \<Rightarrow> ('s, 't) hooks"
  reparseDepthLimit :: int

text \<open>
  The state of one parse: the scanner (\<open>src\<close>, \<open>pos\<close>), the \<open>EmitEnvironment\<close>
  (\<open>messages\<close>, \<open>blockStack\<close>, \<open>inlineStack\<close>, \<open>referringStack\<close>) and the
  \<open>Parser\<close> (\<open>cxt\<close>, \<open>groupDepth\<close>, the four \<open>prefixes\<close> tables).

  The source appends a node to its parent's \<open>content\<close> when the node is opened and
  goes on mutating it. Here a stack holds the nodes under construction, innermost first,
  and a node is appended to its parent when the parser is done with it; nothing else is
  appended to the parent in between, so the trees are the same. The last element of
  \<open>blockStack\<close> is the root. Arrays that the source pushes to (\<open>messages\<close>,
  \<open>referringStack\<close>, \<open>content\<close>) grow at the end.
\<close>

record ('s, 't) pstate =
  src :: string
  pos :: nat
  messages :: "msg list"
  blockStack :: "'s node list"
  inlineStack :: "'s node list"
  referringStack :: "(int \<times> int) list"
  cxt :: "'t cxt"
  groupDepth :: int
  prefixes_block :: "(string \<times> moddef) list"
  prefixes_inline :: "(string \<times> moddef) list"
  prefixes_system :: "(string \<times> moddef) list"
  prefixes_interpolator :: "(string \<times> interp) list"

subsection \<open>EmitEnvironment: messages and the referring stack\<close>

definition refer :: "msg \<Rightarrow> (int \<times> int) list \<Rightarrow> msg" where
  "refer m referringReverse =
     foldl (\<lambda>msg frame. ReferredMessage msg (fst frame) (snd frame - fst frame)) m referringReverse"

definition message :: "msg list \<Rightarrow> ('s, 't) pstate \<Rightarrow> ('s, 't) pstate" where
  "message m st =
     (let referringReverse = rev (referringStack st)
      in foldl (\<lambda>s msg. s\<lparr>messages := messages s @ [refer msg referringReverse]\<rparr>) st m)"

definition pushReferring :: "int \<Rightarrow> int \<Rightarrow> ('s, 't) pstate \<Rightarrow> ('s, 't) pstate" where
  "pushReferring start e st = st\<lparr>referringStack := referringStack st @ [(start, e)]\<rparr>"

text \<open>\<open>popReferring\<close> asserts that the stack is not empty; its only call follows a
  \<open>pushReferring\<close> and a \<open>reparse\<close>, which leaves the stack as it found it
  (lemma \<open>reparse_referringStack\<close>).\<close>

definition popReferring :: "('s, 't) pstate \<Rightarrow> ('s, 't) pstate" where
  "popReferring st = st\<lparr>referringStack := butlast (referringStack st)\<rparr>"

text \<open>The spec's words for the wrapping: one \<open>ReferredMessage\<close> per enclosing expansion
  frame, the outermost frame outermost.\<close>

fun wrap_frames :: "(int \<times> int) list \<Rightarrow> msg \<Rightarrow> msg" where
  "wrap_frames [] m = m"
| "wrap_frames (frame # inner) m =
     ReferredMessage (wrap_frames inner m) (fst frame) (snd frame - fst frame)"

text \<open>
  What a stretch of the parse may do to the messages and the referring stack, if every
  message it stores is wrapped once for each frame that was on the stack when the stretch
  began: the stack is back as it was, and the messages stored are wrapped at least so.
\<close>

definition referred :: "('s, 't) pstate \<Rightarrow> ('s, 't) pstate \<Rightarrow> bool" where
  "referred s s' \<longleftrightarrow> referringStack s' = referringStack s
     \<and> (\<exists>ms. messages s' = messages s @ map (wrap_frames (referringStack s)) ms)"

subsection \<open>The prefix tables\<close>

text \<open>\<open>entries().sort((x, y) => y.length - x.length)\<close>: a stable sort by descending
  length of the name.\<close>

definition sort_by_length :: "(string \<times> 'a) list \<Rightarrow> (string \<times> 'a) list" where
  "sort_by_length entries = sort_key (\<lambda>e. - int (length (fst e))) entries"

definition sortModifiers :: "('s, 't) pstate \<Rightarrow> ('s, 't) pstate" where
  "sortModifiers st = st\<lparr>
     prefixes_block := sort_by_length (blockModifiers (config (cxt st))),
     prefixes_inline := sort_by_length (inlineModifiers (config (cxt st))),
     prefixes_system := sort_by_length (systemModifiers (config (cxt st))),
     prefixes_interpolator := sort_by_length (argumentInterpolators (config (cxt st)))\<rparr>"

text \<open>
  Modelled from the spec: any mutation of a registry fires the change notification
  (the \<open>Configuration\<close> class is not part of the sources at hand). The parser's
  constructor sets the notification to \<open>#sortModifiers\<close>, so storing the context a hook
  left sorts the tables again.
\<close>

definition set_cxt :: "'t cxt \<Rightarrow> ('s, 't) pstate \<Rightarrow> ('s, 't) pstate" where
  "set_cxt c st = sortModifiers (st\<lparr>cxt := c\<rparr>)"

definition no_writes :: "'s writes" where
  "no_writes = \<lparr>w_state = None, w_content = None, w_expansion = None\<rparr>"

text \<open>A modifier node as its fields: those of \<open>modinfo\<close>, \<open>content\<close> and \<open>expansion\<close>.\<close>

type_synonym 's fields = "'s modinfo \<times> 's node list \<times> 's node list option"

definition apply_writes :: "'s writes \<Rightarrow> 's fields \<Rightarrow> 's fields" where
  "apply_writes w node =
     (case node of (m, content, expansion) \<Rightarrow>
        ((case w_state w of None \<Rightarrow> m | Some s \<Rightarrow> m\<lparr>mstate := s\<rparr>),
         (case w_content w of None \<Rightarrow> content | Some c \<Rightarrow> c),
         (case w_expansion w of None \<Rightarrow> expansion | Some x \<Rightarrow> x)))"

text \<open>\<open>if (node.mod.h) this.emit.message(...node.mod.h(node, this.cxt))\<close>: the result is
  what the hook wrote, the node as it left it, and the state with the hook's context and
  messages.\<close>

definition call_hook ::
  "('s, 't) hook option \<Rightarrow> 's fields \<Rightarrow> ('s, 't) pstate
     \<Rightarrow> 's writes \<times> 's fields \<times> ('s, 't) pstate" where
  "call_hook h node st =
     (case h of
        None \<Rightarrow> (no_writes, node, st)
      | Some f \<Rightarrow>
          (case node of (m, content, expansion) \<Rightarrow>
             (case f (ModifierN m content expansion) (cxt st) of
                (msgs, w, c) \<Rightarrow> (w, apply_writes w node, message msgs (set_cxt c st)))))"

definition add_delayDepth :: "int \<Rightarrow> ('s, 't) pstate \<Rightarrow> ('s, 't) pstate" where
  "add_delayDepth k st = st\<lparr>cxt := (cxt st)\<lparr>delayDepth := delayDepth (cxt st) + k\<rparr>\<rparr>"

text \<open>The room left under the depth limit; it shrinks from one \<open>#expand\<close> to the
  next one below it, which is why the expansion terminates.\<close>

definition headroom :: "('s, 't) penv \<Rightarrow> nat \<Rightarrow> nat" where
  "headroom env depth = nat (reparseDepthLimit env + 1 - int depth)"

section \<open>Expansion: \<open>#reparse\<close> and \<open>#expand\<close>\<close>

text \<open>
  \<open>reparse_nodes\<close> is the \<open>for\<close> loop of \<open>#reparse\<close>, with the flag \<open>ok\<close> it carries.
  The functions return the nodes they were given as the in-place mutations leave them.
  In \<open>#expand\<close>, the constant \<open>expansion\<close> is the array that \<open>node.expansion\<close> or
  \<open>node.content\<close> holds when it is read (both, when the \<open>expand\<close> hook returned
  \<open>node.content\<close>); the re-parse changes the elements of that array, and a field shows
  them unless \<open>beforeProcessExpansion\<close> has assigned another array to it.
  \<open>#expand\<close> is only ever called on modifier nodes; its last equation is for the
  other constructors of the model's node type. The \<open>switch\<close> of \<open>#reparse\<close> has no
  case for a root node, which the type of its argument excludes.
\<close>

function (sequential)
  reparse :: "('s, 't) penv \<Rightarrow> 's node list \<Rightarrow> nat \<Rightarrow> ('s, 't) pstate
                \<Rightarrow> bool \<times> 's node list \<times> ('s, 't) pstate"
and reparse_nodes :: "('s, 't) penv \<Rightarrow> 's node list \<Rightarrow> nat \<Rightarrow> bool \<Rightarrow> ('s, 't) pstate
                \<Rightarrow> bool \<times> 's node list \<times> ('s, 't) pstate"
and expand :: "('s, 't) penv \<Rightarrow> 's node \<Rightarrow> nat \<Rightarrow> ('s, 't) pstate
                \<Rightarrow> bool \<times> 's node \<times> ('s, 't) pstate"
where
  "reparse env nodes depth st =
     (if int depth > reparseDepthLimit env then (False, nodes, st)
      else reparse_nodes env nodes depth True st)"
| "reparse_nodes env [] depth ok st = (ok, [], st)"
| "reparse_nodes env (ParagraphN s e content # rest) depth ok st =
     (let (r, content', st') = reparse env content (depth + 1) st;
          (ok', rest', st'') = reparse_nodes env rest depth (r \<and> ok) st'
      in (ok', ParagraphN s e content' # rest', st''))"
| "reparse_nodes env (ModifierN m content expansion # rest) depth ok st =
     (let (r, node', st') = expand env (ModifierN m content expansion) (depth + 1) st;
          (ok', rest', st'') = reparse_nodes env rest depth (r \<and> ok) st'
      in (ok', node' # rest', st''))"
| "reparse_nodes env (node # rest) depth ok st =
     (let (ok', rest', st') = reparse_nodes env rest depth ok st
      in (ok', node # rest', st'))"
| "expand env (ModifierN m content expansion) depth st =
     (if expansion \<noteq> None then (True, ModifierN m content expansion, st)
      else if delayDepth (cxt st) > 0 \<and> \<not> alwaysTryExpand (mmod m)
        then (True, ModifierN m content expansion, st)
      else
        let h = hooks_of env (mmod m);
            delay = delayContentExpansion (mmod m);
            (node1, st1) =
              (if content \<noteq> [] \<and> depth > 0 then
                 let (wa, (ma, contenta, xa), sa) =
                        call_hook (beforeParseContent h) (m, content, None) st;
                     sb = (if delay then add_delayDepth 1 sa else sa);
                     (r, contentc, sc) = reparse env contenta depth sb;
                     sd = (if delay then add_delayDepth (- 1) sc else sc);
                     (we, nodee, se) = call_hook (afterParseContent h) (ma, contentc, xa) sd
                 in (nodee, se)
               else ((m, content, None), st));
            (w2, node2, st2) = call_hook (prepareExpand h) node1 st1;
            (shared, (m3, content3, x3), st3) =
              (case expand_hook h of
                 None \<Rightarrow> (False, node2, st2)
               | Some f \<Rightarrow>
                   (case node2 of (m2, content2, x2) \<Rightarrow>
                      (case f (ModifierN m2 content2 x2) (cxt st2) of
                         (ret, w, c) \<Rightarrow>
                           (case apply_writes w node2 of (mw, contentw, xw) \<Rightarrow>
                              (ret = ContentArray,
                               (mw, contentw,
                                (case ret of Undefined \<Rightarrow> None | Nodes ns \<Rightarrow> Some ns
                                 | ContentArray \<Rightarrow> Some contentw)),
                               set_cxt c st2)))))
        in if expand_hook h \<noteq> None \<and> x3 = None then (True, ModifierN m3 content3 None, st3)
           else
             let expansion' = (case x3 of Some ex \<Rightarrow> ex | None \<Rightarrow> content3)
             in if expansion' = [] then (True, ModifierN m3 content3 x3, st3)
                else
                  let (w4, (m4, content4, x4), st4) =
                         call_hook (beforeProcessExpansion h) (m3, content3, x3) st3;
                      (ok, reparsed, st5) =
                         reparse env expansion' depth (pushReferring (mstart m4) (mend m4) st4);
                      content5 = (if (x3 = None \<or> shared) \<and> w_content w4 = None
                                  then reparsed else content4);
                      x5 = (if x3 \<noteq> None \<and> w_expansion w4 = None
                            then Some reparsed else x4);
                      (w6, (m6, content6, x6), st6) =
                         call_hook (afterProcessExpansion h) (m4, content5, x5) (popReferring st5);
                      st7 = (if \<not> ok \<and> depth = 0 then
                               message [ReachedReparseLimitMessage (mstart m6)
                                  (mend m6 - mstart m6) (reparseDepthLimit env) (name (mmod m6))] st6
                             else st6)
                  in (ok, ModifierN m6 content6 x6, st7))"
| "expand env node depth st = (True, node, st)"
  by pat_completeness auto
termination
  apply (relation "measures
     [\<lambda>x. case x of
             Inl (env, nodes, depth, st) \<Rightarrow> 4 * headroom env depth
           | Inr (Inl (env, nodes, depth, ok, st)) \<Rightarrow> 4 * headroom env (depth + 1) + 2
           | Inr (Inr (env, node, depth, st)) \<Rightarrow> 4 * headroom env depth + 1,
      \<lambda>x. case x of
             Inr (Inl (env, nodes, depth, ok, st)) \<Rightarrow> length nodes
           | _ \<Rightarrow> 0]")
  apply (auto simp: headroom_def)
  done



text \<open>
  The three stages of \<open>#expand\<close> as functions of their own, for the proofs below (lemma
  \<open>expand_stages\<close> shows that \<open>expand\<close> is their composition): re-parsing the content of
  a generated node, calling \<open>prepareExpand\<close> and \<open>expand\<close>, and re-parsing the expansion.
\<close>

definition expand_content ::
  "('s, 't) penv \<Rightarrow> 's modinfo \<Rightarrow> 's node list \<Rightarrow> nat \<Rightarrow> ('s, 't) pstate
     \<Rightarrow> 's fields \<times> ('s, 't) pstate" where
  "expand_content env m content depth st =
     (let h = hooks_of env (mmod m); delay = delayContentExpansion (mmod m)
      in if content \<noteq> [] \<and> depth > 0 then
           let (wa, (ma, contenta, xa), sa) =
                  call_hook (beforeParseContent h) (m, content, None) st;
               sb = (if delay then add_delayDepth 1 sa else sa);
               (r, contentc, sc) = reparse env contenta depth sb;
               sd = (if delay then add_delayDepth (- 1) sc else sc);
               (we, nodee, se) = call_hook (afterParseContent h) (ma, contentc, xa) sd
           in (nodee, se)
         else ((m, content, None), st))"

definition expand_call ::
  "('s, 't) hooks \<Rightarrow> 's fields \<Rightarrow> ('s, 't) pstate
     \<Rightarrow> bool \<times> 's fields \<times> ('s, 't) pstate" where
  "expand_call h node1 st1 =
     (let (w2, node2, st2) = call_hook (prepareExpand h) node1 st1
      in case expand_hook h of
           None \<Rightarrow> (False, node2, st2)
         | Some f \<Rightarrow>
             (case node2 of (m2, content2, x2) \<Rightarrow>
                (case f (ModifierN m2 content2 x2) (cxt st2) of
                   (ret, w, c) \<Rightarrow>
                     (case apply_writes w node2 of (mw, contentw, xw) \<Rightarrow>
                        (ret = ContentArray,
                         (mw, contentw,
                          (case ret of Undefined \<Rightarrow> None | Nodes ns \<Rightarrow> Some ns
                           | ContentArray \<Rightarrow> Some contentw)),
                         set_cxt c st2)))))"

definition expand_expansion ::
  "('s, 't) penv \<Rightarrow> ('s, 't) hooks \<Rightarrow> bool \<Rightarrow> 's fields \<Rightarrow> nat
     \<Rightarrow> ('s, 't) pstate \<Rightarrow> bool \<times> 's node \<times> ('s, 't) pstate" where
  "expand_expansion env h shared node3 depth st3 =
     (case node3 of (m3, content3, x3) \<Rightarrow>
       (let (w4, (m4, content4, x4), st4) =
               call_hook (beforeProcessExpansion h) (m3, content3, x3) st3;
            (ok, reparsed, st5) =
               reparse env (case x3 of Some ex \<Rightarrow> ex | None \<Rightarrow> content3) depth
                 (pushReferring (mstart m4) (mend m4) st4);
            content5 = (if (x3 = None \<or> shared) \<and> w_content w4 = None
                        then reparsed else content4);
            x5 = (if x3 \<noteq> None \<and> w_expansion w4 = None
                  then Some reparsed else x4);
            (w6, (m6, content6, x6), st6) =
               call_hook (afterProcessExpansion h) (m4, content5, x5) (popReferring st5);
            st7 = (if \<not> ok \<and> depth = 0 then
                     message [ReachedReparseLimitMessage (mstart m6)
                        (mend m6 - mstart m6) (reparseDepthLimit env) (name (mmod m6))] st6
                   else st6)
        in (ok, ModifierN m6 content6 x6, st7)))"

text \<open>The hooks of all definitions, and what it means for every hook to leave an
  observation of the context as it found it.\<close>

definition hooks_in :: "('s, 't) penv \<Rightarrow> ('s, 't) hook option set" where
  "hooks_in env = (\<Union>d. {beforeParseContent (hooks_of env d), afterParseContent (hooks_of env d),
      beforeProcessExpansion (hooks_of env d), afterProcessExpansion (hooks_of env d),
      prepareExpand (hooks_of env d)})"

definition hooks_keep :: "('t cxt \<Rightarrow> 'a) \<Rightarrow> ('s, 't) penv \<Rightarrow> bool" where
  "hooks_keep obs env =
     ((\<forall>g \<in> hooks_in env. \<forall>f node c. g = Some f \<longrightarrow> obs (snd (snd (f node c))) = obs c)
      \<and> (\<forall>d f node c. expand_hook (hooks_of env d) = Some f
             \<longrightarrow> obs (snd (snd (f node c))) = obs c))"

section \<open>Scanner\<close>

text \<open>
  Modelled from the spec: the scanner (its class is not part of the sources at hand), a
  cursor \<open>pos\<close> over the source string \<open>src\<close>. \<open>peek s\<close> is true iff \<open>s\<close> is a prefix at
  the cursor; \<open>accept\<close> is \<open>peek\<close>, advancing on true; \<open>acceptChar\<close> advances one
  character (\<open>None\<close> at the end of the input, where there is none);
  \<open>acceptWhitespaceChar\<close> advances if the next character is a whitespace other than a
  newline (space and tab here); \<open>acceptUntil s\<close> accepts characters until \<open>s\<close> is
  peeked and gives null if the end of the input is hit first.
\<close>

definition position :: "('s, 't) pstate \<Rightarrow> int" where
  "position st = int (pos st)"

definition isEOF :: "('s, 't) pstate \<Rightarrow> bool" where
  "isEOF st = (length (src st) \<le> pos st)"

definition peek :: "string \<Rightarrow> ('s, 't) pstate \<Rightarrow> bool" where
  "peek s st = (take (length s) (drop (pos st) (src st)) = s)"

definition accept :: "string \<Rightarrow> ('s, 't) pstate \<Rightarrow> bool \<times> ('s, 't) pstate" where
  "accept s st = (if peek s st then (True, st\<lparr>pos := pos st + length s\<rparr>) else (False, st))"

definition acceptChar :: "('s, 't) pstate \<Rightarrow> (char \<times> ('s, 't) pstate) option" where
  "acceptChar st =
     (if isEOF st then None else Some (src st ! pos st, st\<lparr>pos := pos st + 1\<rparr>))"

definition is_whitespace :: "char \<Rightarrow> bool" where
  "is_whitespace c = (c = CHR '' '' \<or> c = CHR 0x09)"

definition acceptWhitespaceChar :: "('s, 't) pstate \<Rightarrow> char option \<times> ('s, 't) pstate" where
  "acceptWhitespaceChar st =
     (if \<not> isEOF st \<and> is_whitespace (src st ! pos st)
      then (Some (src st ! pos st), st\<lparr>pos := pos st + 1\<rparr>)
      else (None, st))"

function acceptUntil :: "string \<Rightarrow> ('s, 't) pstate \<Rightarrow> string option \<times> ('s, 't) pstate" where
  "acceptUntil s st =
     (if peek s st then (Some [], st)
      else if isEOF st then (None, st)
      else (case acceptUntil s (st\<lparr>pos := pos st + 1\<rparr>) of
              (r, st') \<Rightarrow> (map_option ((#) (src st ! pos st)) r, st')))"
  by pat_completeness auto
termination
  by (relation "measure (\<lambda>(s, st). length (src st) - pos st)") (auto simp: isEOF_def)

text \<open>\<open>prefixes.find(([name, _]) => this.scanner.accept(name))\<close>: the first entry whose
  name is accepted, the cursor advanced over it.\<close>

fun find_accept ::
  "(string \<times> 'a) list \<Rightarrow> ('s, 't) pstate \<Rightarrow> (string \<times> 'a) option \<times> ('s, 't) pstate" where
  "find_accept [] st = (None, st)"
| "find_accept (entry # rest) st =
     (case accept (fst entry) st of
        (True, st') \<Rightarrow> (Some entry, st')
      | (False, st') \<Rightarrow> find_accept rest st')"

section \<open>EmitEnvironment: building the tree\<close>

text \<open>\<open>content.push(n)\<close> on a node that has a \<open>content\<close> array.\<close>

fun push_content :: "'s node \<Rightarrow> 's node \<Rightarrow> 's node" where
  "push_content n (RootN s e c) = RootN s e (c @ [n])"
| "push_content n (ParagraphN s e c) = ParagraphN s e (c @ [n])"
| "push_content n (ModifierN m c x) = ModifierN m (c @ [n]) x"
| "push_content n node = node"

fun node_content :: "'s node \<Rightarrow> 's node list" where
  "node_content (RootN s e c) = c"
| "node_content (ParagraphN s e c) = c"
| "node_content (ModifierN m c x) = c"
| "node_content node = []"

fun set_content :: "'s node list \<Rightarrow> 's node \<Rightarrow> 's node" where
  "set_content c' (RootN s e c) = RootN s e c'"
| "set_content c' (ParagraphN s e c) = ParagraphN s e c'"
| "set_content c' (ModifierN m c x) = ModifierN m c' x"
| "set_content c' node = node"

fun set_end :: "int \<Rightarrow> 's node \<Rightarrow> 's node" where
  "set_end e' (RootN s e c) = RootN s e' c"
| "set_end e' (ParagraphN s e c) = ParagraphN s e' c"
| "set_end e' (ModifierN m c x) = ModifierN (m\<lparr>mend := e'\<rparr>) c x"
| "set_end e' (PreN s e cs ce t) = PreN s e' cs ce t"
| "set_end e' (TextN s e t) = TextN s e' t"
| "set_end e' (EscapedN s e t) = EscapedN s e' t"

text \<open>The assertions of the \<open>EmitEnvironment\<close> throw; a failed assertion is \<open>None\<close>.\<close>

definition addBlockNode :: "'s node \<Rightarrow> ('s, 't) pstate \<Rightarrow> ('s, 't) pstate option" where
  "addBlockNode n st =
     (case blockStack st of
        [] \<Rightarrow> None
      | cur # below \<Rightarrow> Some (st\<lparr>blockStack := push_content n cur # below\<rparr>))"

definition addInlineNode :: "'s node \<Rightarrow> ('s, 't) pstate \<Rightarrow> ('s, 't) pstate option" where
  "addInlineNode n st =
     (case inlineStack st of
        [] \<Rightarrow> None
      | cur # below \<Rightarrow> Some (st\<lparr>inlineStack := push_content n cur # below\<rparr>))"

definition addString :: "string \<Rightarrow> ('s, 't) pstate \<Rightarrow> ('s, 't) pstate option" where
  "addString str st =
     (case inlineStack st of
        [] \<Rightarrow> None
      | cur # below \<Rightarrow>
          (let content = node_content cur
           in if content \<noteq> [] \<and> (case last content of TextN s e t \<Rightarrow> True | _ \<Rightarrow> False)
              then (case last content of
                      TextN s e t \<Rightarrow>
                        Some (st\<lparr>inlineStack :=
                          set_content (butlast content @ [TextN s (position st) (t @ str)]) cur # below\<rparr>)
                    | _ \<Rightarrow> None)
              else Some (st\<lparr>inlineStack :=
                     push_content (TextN (position st - int (length str)) (position st) str) cur
                       # below\<rparr>)))"

text \<open>
  \<open>startBlock\<close> and \<open>startInline\<close> put the node on its stack; \<open>endBlock\<close> and
  \<open>endInline\<close> take it off, set its \<open>end\<close> and hand it back, for the caller to append
  it to its parent (which the source has done at the start, after the same assertion).
\<close>

definition startBlock :: "'s node \<Rightarrow> ('s, 't) pstate \<Rightarrow> ('s, 't) pstate option" where
  "startBlock block st =
     (if blockStack st = [] then None else Some (st\<lparr>blockStack := block # blockStack st\<rparr>))"

definition endBlock :: "('s, 't) pstate \<Rightarrow> ('s node \<times> ('s, 't) pstate) option" where
  "endBlock st =
     (case blockStack st of
        node # parent # below \<Rightarrow>
          Some (set_end (position st) node, st\<lparr>blockStack := parent # below\<rparr>)
      | _ \<Rightarrow> None)"

definition startInline :: "'s node \<Rightarrow> ('s, 't) pstate \<Rightarrow> ('s, 't) pstate option" where
  "startInline n st =
     (if (case n of ParagraphN s e c \<Rightarrow> blockStack st = [] | _ \<Rightarrow> inlineStack st = [])
      then None else Some (st\<lparr>inlineStack := n # inlineStack st\<rparr>))"

definition endInline :: "('s, 't) pstate \<Rightarrow> ('s node \<times> ('s, 't) pstate) option" where
  "endInline st =
     (case inlineStack st of
        [] \<Rightarrow> None
      | node # below \<Rightarrow> Some (set_end (position st) node, st\<lparr>inlineStack := below\<rparr>))"

section \<open>Parser\<close>

definition GROUP_BEGIN :: string where "GROUP_BEGIN = '':--''"
definition GROUP_END :: string where "GROUP_END = ''--:''"
definition MODIFIER_BLOCK_OPEN :: string where "MODIFIER_BLOCK_OPEN = ''[.''"
definition MODIFIER_CLOSE_SIGN :: string where "MODIFIER_CLOSE_SIGN = '']''"
definition MODIFIER_END_SIGN :: string where "MODIFIER_END_SIGN = '';''"
definition MODIFIER_INLINE_OPEN :: string where "MODIFIER_INLINE_OPEN = ''[/''"
definition MODIFIER_INLINE_END_TAG :: string where "MODIFIER_INLINE_END_TAG = ''[;]''"
definition MODIFIER_SYSTEM_OPEN :: string where "MODIFIER_SYSTEM_OPEN = ''[-''"

text \<open>The three reserved definitions, objects of their own (\<open>ident\<close> 0, 1 and 2) without
  hooks.\<close>

fun UnknownModifier :: "kind \<Rightarrow> moddef" where
  "UnknownModifier Block = \<lparr>ident = 0, name = ''UNKNOWN'', flags = ModifierFlags_Normal,
      delayContentExpansion = False, alwaysTryExpand = False\<rparr>"
| "UnknownModifier Inline = \<lparr>ident = 1, name = ''UNKNOWN'', flags = ModifierFlags_Normal,
      delayContentExpansion = False, alwaysTryExpand = False\<rparr>"
| "UnknownModifier System = \<lparr>ident = 2, name = ''UNKNOWN'', flags = ModifierFlags_Normal,
      delayContentExpansion = False, alwaysTryExpand = False\<rparr>"

fun modifier_open :: "kind \<Rightarrow> string" where
  "modifier_open Block = MODIFIER_BLOCK_OPEN"
| "modifier_open System = MODIFIER_SYSTEM_OPEN"
| "modifier_open Inline = MODIFIER_INLINE_OPEN"

fun prefixes :: "kind \<Rightarrow> ('s, 't) pstate \<Rightarrow> (string \<times> moddef) list" where
  "prefixes Block st = prefixes_block st"
| "prefixes Inline st = prefixes_inline st"
| "prefixes System st = prefixes_system st"

text \<open>The loops that only move the cursor. Each turn consumes a character, so they are
  recursive over what is left of the input.\<close>

definition NL :: string where "NL = [CHR 0x0A]"

function WHITESPACES_OR_NEWLINES :: "('s, 't) pstate \<Rightarrow> ('s, 't) pstate" where
  "WHITESPACES_OR_NEWLINES st =
     (case acceptWhitespaceChar st of
        (Some c, st1) \<Rightarrow> WHITESPACES_OR_NEWLINES st1
      | (None, st1) \<Rightarrow>
          (case accept NL st1 of
             (True, st2) \<Rightarrow> WHITESPACES_OR_NEWLINES st2
           | (False, st2) \<Rightarrow> st2))"
  by pat_completeness auto
termination
  apply (relation "measure (\<lambda>st. length (src st) - pos st)")
    apply (auto simp: acceptWhitespaceChar_def accept_def peek_def isEOF_def NL_def split: if_splits)
  subgoal for st x by (cases "pos st < length (src st)") auto
  done

text \<open>\<open>while (this.scanner.acceptWhitespaceChar() !== null) {}\<close>, with the characters
  it accepted.\<close>

function accept_whitespaces :: "('s, 't) pstate \<Rightarrow> string \<times> ('s, 't) pstate" where
  "accept_whitespaces st =
     (case acceptWhitespaceChar st of
        (Some c, st1) \<Rightarrow> (case accept_whitespaces st1 of (cs, st2) \<Rightarrow> (c # cs, st2))
      | (None, st1) \<Rightarrow> ([], st1))"
  by pat_completeness auto
termination
  by (relation "measure (\<lambda>st. length (src st) - pos st)")
    (auto simp: acceptWhitespaceChar_def isEOF_def split: if_splits)

definition SHOULD_BE_A_NEWLINE :: "('s, 't) pstate \<Rightarrow> ('s, 't) pstate" where
  "SHOULD_BE_A_NEWLINE st =
     (case accept NL (snd (accept_whitespaces st)) of
        (True, st1) \<Rightarrow> st1
      | (False, st1) \<Rightarrow> message [ContentShouldBeOnNewlineMessage (position st1)] st1)"

function count_newlines :: "nat \<Rightarrow> ('s, 't) pstate \<Rightarrow> nat \<times> ('s, 't) pstate" where
  "count_newlines nlines st =
     (case accept NL st of
        (True, st1) \<Rightarrow> count_newlines (nlines + 1) st1
      | (False, st1) \<Rightarrow>
          (case acceptWhitespaceChar st1 of
             (None, st2) \<Rightarrow> (nlines, st2)
           | (Some c, st2) \<Rightarrow> count_newlines nlines st2))"
  by pat_completeness auto
termination
  apply (relation "measure (\<lambda>(n, st). length (src st) - pos st)")
    apply (auto simp: acceptWhitespaceChar_def accept_def peek_def isEOF_def NL_def split: if_splits)
  subgoal for st x by (cases "pos st < length (src st)") auto
  done

definition WARN_IF_MORE_NEWLINES_THAN :: "nat \<Rightarrow> ('s, 't) pstate \<Rightarrow> ('s, 't) pstate" where
  "WARN_IF_MORE_NEWLINES_THAN n st =
     (case count_newlines 0 st of
        (nlines, st1) \<Rightarrow>
          if nlines > n
          then message [UnnecessaryNewlineMessage (position st) (position st1 - position st)] st1
          else st1)"


text \<open>
  The functions below recurse as the source does, and nothing in the source bounds their
  recursion by the input alone; they carry fuel, the number of nested calls and loop
  turns they may still make. \<open>None\<close> stands for no result: the fuel ran out, or an
  assertion failed.
\<close>

text \<open>\<open>emitString\<close> of \<open>ARGUMENT_CONTENT\<close>.\<close>

definition emitString :: "string \<Rightarrow> argent list \<Rightarrow> ('s, 't) pstate \<Rightarrow> argent list" where
  "emitString str content st =
     (if content \<noteq> [] \<and> (case last content of AText s e t \<Rightarrow> True | _ \<Rightarrow> False)
      then (case last content of
              AText s e t \<Rightarrow> butlast content @ [AText s (e + int (length str)) (t @ str)]
            | _ \<Rightarrow> content)
      else content @ [AText (position st - int (length str)) (position st) str])"

fun ARGUMENT_CONTENT ::
  "nat \<Rightarrow> string option \<Rightarrow> ('s, 't) pstate \<Rightarrow> ((marg \<times> bool) \<times> ('s, 't) pstate) option"
and ARGUMENT_CONTENT_loop ::
  "nat \<Rightarrow> string option \<Rightarrow> argent list \<Rightarrow> int \<Rightarrow> int \<Rightarrow> ('s, 't) pstate
     \<Rightarrow> ((marg \<times> bool) \<times> ('s, 't) pstate) option"
where
  "ARGUMENT_CONTENT 0 end_str st = None"
| "ARGUMENT_CONTENT (Suc n) end_str st =
     ARGUMENT_CONTENT_loop n end_str [] (position st) (position st) st"
| "ARGUMENT_CONTENT_loop 0 end_str content posStart posEnd st = None"
| "ARGUMENT_CONTENT_loop (Suc n) end_str content posStart posEnd st =
     (case (case end_str of None \<Rightarrow> (False, st) | Some e \<Rightarrow> accept e st) of
        (True, st1) \<Rightarrow> Some ((MArg posStart posEnd content, True), st1)
      | (False, _) \<Rightarrow>
     (case accept '':'' st of
        (True, st1) \<Rightarrow> Some ((MArg posStart posEnd content, end_str = None), st1)
      | (False, _) \<Rightarrow>
     if peek MODIFIER_END_SIGN st \<or> peek MODIFIER_CLOSE_SIGN st \<or> isEOF st
     then Some ((MArg posStart posEnd content, False), st)
     else
     (case accept [CHR 0x5C] st of
        (True, st1) \<Rightarrow>
          (if isEOF st1
           then Some ((MArg posStart (position st1) (emitString [CHR 0x5C] content st1), False), st1)
           else (case acceptChar st1 of
                   None \<Rightarrow> None
                 | Some (c, st2) \<Rightarrow>
                     ARGUMENT_CONTENT_loop n end_str
                       (content @ [AEscaped (position st1 - 2) (position st1) [c]])
                       posStart (position st1) st2))
      | (False, _) \<Rightarrow>
     (case find_accept (prefixes_interpolator st) st of
        (Some result, st1) \<Rightarrow>
          (case ARGUMENT_CONTENT n (Some (postfix (snd result))) st1 of
             None \<Rightarrow> None
           | Some ((inner, ok2), st2) \<Rightarrow>
               (let content' = content @
                      [AInterp (snd result) inner (position st2 - 2) (position st2)]
                in if \<not> ok2
                   then Some ((MArg posStart (position st2) content', False),
                          message [ExpectedMessage (position st2) (postfix (snd result))] st2)
                   else ARGUMENT_CONTENT_loop n end_str content' posStart (position st2) st2))
      | (None, _) \<Rightarrow>
          (case acceptChar st of
             None \<Rightarrow> None
           | Some (c, st1) \<Rightarrow>
               ARGUMENT_CONTENT_loop n end_str (emitString [c] content st1)
                 posStart (position st1) st1)))))"

fun marg_content :: "marg \<Rightarrow> argent list" where
  "marg_content (MArg s e c) = c"

fun ARGUMENTS_loop ::
  "nat \<Rightarrow> bool \<Rightarrow> marg list \<Rightarrow> ('s, 't) pstate \<Rightarrow> (marg list \<times> ('s, 't) pstate) option" where
  "ARGUMENTS_loop 0 firstSemicolon list st = None"
| "ARGUMENTS_loop (Suc n) firstSemicolon list st =
     (case ARGUMENT_CONTENT n None st of
        None \<Rightarrow> None
      | Some ((arg, ok), st1) \<Rightarrow>
          if \<not> ok
          then (if list = [] \<and> marg_content arg = [] \<and> \<not> firstSemicolon
                then Some (list, st1) else Some (list @ [arg], st1))
          else ARGUMENTS_loop n firstSemicolon (list @ [arg]) st1)"

definition ARGUMENTS :: "nat \<Rightarrow> ('s, 't) pstate \<Rightarrow> (marg list \<times> ('s, 't) pstate) option" where
  "ARGUMENTS n st =
     (case accept '':'' st of
        (firstSemicolon, st1) \<Rightarrow>
          ARGUMENTS_loop n firstSemicolon []
            (if \<not> firstSemicolon then WHITESPACES_OR_NEWLINES st1 else st1))"

text \<open>The loop of \<open>PRE_PARAGRAPH\<close>, with its variables \<open>string\<close> and \<open>posContentEnd\<close>.\<close>

fun PRE_PARAGRAPH_loop ::
  "nat \<Rightarrow> bool \<Rightarrow> string \<Rightarrow> int \<Rightarrow> ('s, 't) pstate \<Rightarrow> (string \<times> int \<times> ('s, 't) pstate) option" where
  "PRE_PARAGRAPH_loop 0 grouped str posContentEnd st = None"
| "PRE_PARAGRAPH_loop (Suc n) grouped str posContentEnd st =
     (if isEOF st then Some (str, posContentEnd, st)
      else
        (case accept NL st of
           (True, st1) \<Rightarrow>
             (case accept_whitespaces st1 of
                (white, st2) \<Rightarrow>
                  (case (if grouped then accept GROUP_END st2 else accept NL st2) of
                     (True, st3) \<Rightarrow> Some (str, posContentEnd, st3)
                   | (False, _) \<Rightarrow>
                       if isEOF st2
                       then Some (str, posContentEnd,
                              if grouped then message [ExpectedMessage (position st2) GROUP_END] st2
                              else st2)
                       else PRE_PARAGRAPH_loop n grouped (str @ NL @ white) (position st2) st2))
         | (False, _) \<Rightarrow>
             (case acceptChar st of
                None \<Rightarrow> None
              | Some (c, st1) \<Rightarrow> PRE_PARAGRAPH_loop n grouped (str @ [c]) (position st1) st1)))"

definition PRE_PARAGRAPH :: "nat \<Rightarrow> ('s, 't) pstate \<Rightarrow> ('s, 't) pstate option" where
  "PRE_PARAGRAPH n st =
     (if isEOF st then None
      else
        (case accept GROUP_BEGIN st of
           (grouped, st1) \<Rightarrow>
             (let st2 = (if grouped then SHOULD_BE_A_NEWLINE st1 else st1)
              in case PRE_PARAGRAPH_loop n grouped [] (position st2) st2 of
                   None \<Rightarrow> None
                 | Some (str, posContentEnd, st3) \<Rightarrow>
                     addBlockNode
                       (PreN (position st) (position st3) (position st2) posContentEnd str) st3)))"

definition PREFORMATTED_INLINE_ENTITY :: "('s, 't) pstate \<Rightarrow> (bool \<times> ('s, 't) pstate) option" where
  "PREFORMATTED_INLINE_ENTITY st =
     (if isEOF st then None
      else
        (case accept NL st of
           (True, st1) \<Rightarrow>
             (let st2 = snd (accept_whitespaces st1)
              in if peek MODIFIER_BLOCK_OPEN st2 \<or> peek MODIFIER_SYSTEM_OPEN st2
                    \<or> (peek GROUP_END st2 \<and> groupDepth st2 > 0) \<or> isEOF st2
                 then Some (False, st2)
                 else (case accept NL st2 of
                         (True, st3) \<Rightarrow> Some (False, WARN_IF_MORE_NEWLINES_THAN 0 st3)
                       | (False, _) \<Rightarrow> map_option (Pair True) (addString NL st2)))
         | (False, _) \<Rightarrow>
             (case acceptChar st of
                None \<Rightarrow> None
              | Some (c, st1) \<Rightarrow> map_option (Pair True) (addString [c] st1))))"

text \<open>Lines 279 to 287 of \<open>MODIFIER\<close>: the lookup of the definition.\<close>

definition lookup_modifier ::
  "kind \<Rightarrow> int \<Rightarrow> ('s, 't) pstate \<Rightarrow> moddef \<times> ('s, 't) pstate" where
  "lookup_modifier type posStart st =
     (case find_accept (prefixes type st) st of
        (Some result, st1) \<Rightarrow> (snd result, st1)
      | (None, st1) \<Rightarrow>
          (case acceptUntil MODIFIER_CLOSE_SIGN st1 of
             (args, st2) \<Rightarrow>
               (let st3 = (if args = None
                           then message [ExpectedMessage (position st2) MODIFIER_CLOSE_SIGN] st2
                           else st2)
                in (UnknownModifier type,
                    message [UnknownModifierMessage posStart (position st3 - posStart)] st3))))"

fun fields_of :: "'s node \<Rightarrow> 's fields option" where
  "fields_of (ModifierN m c x) = Some (m, c, x)"
| "fields_of node = None"

text \<open>
  \<open>MODIFIER\<close> up to the content: the opener, the definition, the arguments, the end sign,
  the closing bracket, the node, \<open>beforeParseContent\<close> and the increment of \<open>delayDepth\<close>.
  The result is the definition, \<open>isMarker\<close>, the node and the state.
\<close>

definition MODIFIER_begin ::
  "nat \<Rightarrow> ('s, 't) penv \<Rightarrow> kind \<Rightarrow> ('s, 't) pstate
     \<Rightarrow> (moddef \<times> bool \<times> 's node \<times> ('s, 't) pstate) option" where
  "MODIFIER_begin n env type st =
     (case accept (modifier_open type) st of
        (False, _) \<Rightarrow> None
      | (True, st1) \<Rightarrow>
     (case lookup_modifier type (position st) st1 of
        (mdef, st2) \<Rightarrow>
     (case ARGUMENTS n st2 of
        None \<Rightarrow> None
      | Some (args, st3) \<Rightarrow>
     (case accept MODIFIER_END_SIGN st3 of
        (endsign, st4) \<Rightarrow>
     (case accept MODIFIER_CLOSE_SIGN st4 of
        (closed, st5) \<Rightarrow>
     (let isMarker = (has (flags mdef) ModifierFlags_Marker \<or> endsign);
          st6 = (if \<not> closed
                 then message [ExpectedMessage (position st5) MODIFIER_CLOSE_SIGN] st5
                 else st5);
          node = (\<lparr>mtype = type, mmod = mdef, mhead = (position st, position st6),
                    marguments = args, mstate = None, mstart = position st, mend = - 1\<rparr>,
                  [], None)
      in case call_hook (beforeParseContent (hooks_of env mdef)) node st6 of
           (w1, (m1, content1, x1), st7) \<Rightarrow>
             Some (mdef, isMarker, ModifierN m1 content1 x1,
                   if delayContentExpansion mdef then add_delayDepth 1 st7 else st7)))))))"

text \<open>
  \<open>MODIFIER\<close> after the content: the decrement of \<open>delayDepth\<close>, \<open>afterParseContent\<close> and
  \<open>#expand\<close>; then the node, as these left it, joins its parent.
\<close>

definition MODIFIER_end ::
  "('s, 't) penv \<Rightarrow> kind \<Rightarrow> moddef \<Rightarrow> 's node \<Rightarrow> ('s, 't) pstate \<Rightarrow> ('s, 't) pstate option" where
  "MODIFIER_end env type mdef node st =
     (case fields_of node of
        None \<Rightarrow> None
      | Some fs \<Rightarrow>
          (case call_hook (afterParseContent (hooks_of env mdef)) fs
                  (if delayContentExpansion mdef then add_delayDepth (- 1) st else st) of
             (w3, (m3, content3, x3), st1) \<Rightarrow>
               (case expand env (ModifierN m3 content3 x3) 0 st1 of
                  (r, node4, st2) \<Rightarrow>
                    if type = Inline then addInlineNode node4 st2 else addBlockNode node4 st2)))"

function (sequential) BLOCK_ENTITY :: "nat \<Rightarrow> ('s, 't) penv \<Rightarrow> ('s, 't) pstate \<Rightarrow> ('s, 't) pstate option"
and MODIFIER ::
  "nat \<Rightarrow> ('s, 't) penv \<Rightarrow> kind \<Rightarrow> ('s, 't) pstate \<Rightarrow> (bool \<times> ('s, 't) pstate) option"
and inline_content ::
  "nat \<Rightarrow> ('s, 't) penv \<Rightarrow> moddef \<Rightarrow> ('s, 't) pstate \<Rightarrow> (bool \<times> ('s, 't) pstate) option"
and MAYBE_GROUPED_PARAGRAPH ::
  "nat \<Rightarrow> ('s, 't) penv \<Rightarrow> ('s, 't) pstate \<Rightarrow> ('s, 't) pstate option"
and group_content :: "nat \<Rightarrow> ('s, 't) penv \<Rightarrow> ('s, 't) pstate \<Rightarrow> ('s, 't) pstate option"
and PARAGRAPH :: "nat \<Rightarrow> ('s, 't) penv \<Rightarrow> ('s, 't) pstate \<Rightarrow> ('s, 't) pstate option"
and paragraph_content :: "nat \<Rightarrow> ('s, 't) penv \<Rightarrow> ('s, 't) pstate \<Rightarrow> ('s, 't) pstate option"
and INLINE_ENTITY ::
  "nat \<Rightarrow> ('s, 't) penv \<Rightarrow> ('s, 't) pstate \<Rightarrow> (bool \<times> ('s, 't) pstate) option"
where
  "BLOCK_ENTITY 0 env st = None"
| "BLOCK_ENTITY (Suc n) env st =
     (if isEOF st then None
      else if peek MODIFIER_BLOCK_OPEN st then map_option snd (MODIFIER n env Block st)
      else if peek MODIFIER_SYSTEM_OPEN st then map_option snd (MODIFIER n env System st)
      else MAYBE_GROUPED_PARAGRAPH n env st)"
| "MODIFIER 0 env type st = None"
| "MODIFIER (Suc n) env type st =
     (case MODIFIER_begin n env type st of
        None \<Rightarrow> None
      | Some (mdef, isMarker, node, st1) \<Rightarrow>
          if isMarker then map_option (Pair True) (MODIFIER_end env type mdef node st1)
          else if type = Inline then
            (case startInline node st1 of
               None \<Rightarrow> None
             | Some st2 \<Rightarrow>
                 (case inline_content n env mdef st2 of
                    None \<Rightarrow> None
                  | Some (ok, st3) \<Rightarrow>
                      (case endInline st3 of
                         None \<Rightarrow> None
                       | Some (node2, st4) \<Rightarrow>
                           map_option (Pair ok) (MODIFIER_end env type mdef node2 st4))))
          else
            (case startBlock node st1 of
               None \<Rightarrow> None
             | Some st2 \<Rightarrow>
                 (case (if isEOF (WARN_IF_MORE_NEWLINES_THAN 1 st2)
                        then Some (WARN_IF_MORE_NEWLINES_THAN 1 st2)
                        else if has (flags mdef) ModifierFlags_Preformatted
                             then PRE_PARAGRAPH n (WARN_IF_MORE_NEWLINES_THAN 1 st2)
                             else BLOCK_ENTITY n env (WARN_IF_MORE_NEWLINES_THAN 1 st2)) of
                    None \<Rightarrow> None
                  | Some st3 \<Rightarrow>
                      (case endBlock st3 of
                         None \<Rightarrow> None
                       | Some (node2, st4) \<Rightarrow>
                           map_option (Pair True) (MODIFIER_end env type mdef node2 st4)))))"
| "inline_content 0 env mdef st = None"
| "inline_content (Suc n) env mdef st =
     (case accept MODIFIER_INLINE_END_TAG st of
        (True, st1) \<Rightarrow> Some (True, st1)
      | (False, _) \<Rightarrow>
          if isEOF st
          then Some (True, message [UnclosedInlineModifierMessage (position st) (name mdef)] st)
          else
            (case (if has (flags mdef) ModifierFlags_Preformatted
                   then PREFORMATTED_INLINE_ENTITY st else INLINE_ENTITY n env st) of
               None \<Rightarrow> None
             | Some (ok, st1) \<Rightarrow>
                 if \<not> ok
                 then Some (False,
                        message [UnclosedInlineModifierMessage (position st1) (name mdef)] st1)
                 else inline_content n env mdef st1))"
| "MAYBE_GROUPED_PARAGRAPH 0 env st = None"
| "MAYBE_GROUPED_PARAGRAPH (Suc n) env st =
     (if isEOF st then None
      else
        (case accept GROUP_BEGIN st of
           (True, st1) \<Rightarrow>
             group_content n env
               (WARN_IF_MORE_NEWLINES_THAN 1
                  (SHOULD_BE_A_NEWLINE (st1\<lparr>groupDepth := groupDepth st1 + 1\<rparr>)))
         | (False, _) \<Rightarrow> PARAGRAPH n env st))"
| "group_content 0 env st = None"
| "group_content (Suc n) env st =
     (if isEOF st then Some (message [ExpectedMessage (position st) GROUP_END] st)
      else
        (case accept GROUP_END st of
           (True, st1) \<Rightarrow> Some (st1\<lparr>groupDepth := groupDepth st1 - 1\<rparr>)
         | (False, _) \<Rightarrow>
             (case BLOCK_ENTITY n env st of
                None \<Rightarrow> None
              | Some st1 \<Rightarrow> group_content n env (WARN_IF_MORE_NEWLINES_THAN 1 st1))))"
| "PARAGRAPH 0 env st = None"
| "PARAGRAPH (Suc n) env st =
     (if isEOF st then None
      else
        (case startInline (ParagraphN (position st) (- 1) []) st of
           None \<Rightarrow> None
         | Some st1 \<Rightarrow>
             (case paragraph_content n env st1 of
                None \<Rightarrow> None
              | Some st2 \<Rightarrow>
                  (case endInline st2 of
                     None \<Rightarrow> None
                   | Some (node, st3) \<Rightarrow> addBlockNode node st3))))"
| "paragraph_content 0 env st = None"
| "paragraph_content (Suc n) env st =
     (if isEOF st then Some st
      else
        (case INLINE_ENTITY n env st of
           None \<Rightarrow> None
         | Some (ok, st1) \<Rightarrow> if ok then paragraph_content n env st1 else Some st1))"
| "INLINE_ENTITY 0 env st = None"
| "INLINE_ENTITY (Suc n) env st =
     (if isEOF st then None
      else if peek MODIFIER_BLOCK_OPEN st
        then Some (False, message [NewBlockShouldBeOnNewlineMessage (position st)] st)
      else if peek MODIFIER_INLINE_OPEN st then MODIFIER n env Inline st
      else if peek MODIFIER_SYSTEM_OPEN st then Some (False, st)
      else
        (case accept [CHR 0x5C] st of
           (True, st1) \<Rightarrow>
             (if isEOF st1 then map_option (Pair True) (addString [CHR 0x5C] st1)
              else (case acceptChar st1 of
                      None \<Rightarrow> None
                    | Some (c, st2) \<Rightarrow>
                        map_option (Pair True)
                          (addInlineNode (EscapedN (position st1 - 1) (position st2) [c]) st2)))
         | (False, _) \<Rightarrow> PREFORMATTED_INLINE_ENTITY st))"
  by pat_completeness auto

termination
  by (relation "measure (case_sum (case_sum (case_sum fst fst) (case_sum fst fst))
          (case_sum (case_sum fst fst) (case_sum fst fst)))") simp_all


fun DOCUMENT_loop :: "nat \<Rightarrow> ('s, 't) penv \<Rightarrow> ('s, 't) pstate \<Rightarrow> ('s, 't) pstate option" where
  "DOCUMENT_loop 0 env st = None"
| "DOCUMENT_loop (Suc n) env st =
     (if isEOF st then Some st
      else (case BLOCK_ENTITY n env st of
              None \<Rightarrow> None
            | Some st1 \<Rightarrow> DOCUMENT_loop n env (WHITESPACES_OR_NEWLINES st1)))"

definition DOCUMENT :: "nat \<Rightarrow> ('s, 't) penv \<Rightarrow> ('s, 't) pstate \<Rightarrow> ('s, 't) pstate option" where
  "DOCUMENT n env st = DOCUMENT_loop n env (WHITESPACES_OR_NEWLINES st)"

text \<open>The constructor of \<open>Parser\<close>, with a fresh \<open>EmitEnvironment\<close> and context.\<close>

definition new_Parser :: "string \<Rightarrow> config \<Rightarrow> 't \<Rightarrow> ('s, 't) pstate" where
  "new_Parser source cfg payload =
     sortModifiers \<lparr>src = source, pos = 0, messages = [],
       blockStack = [RootN 0 (- 1) []], inlineStack = [], referringStack = [],
       cxt = \<lparr>config = cfg, delayDepth = 0, store = payload\<rparr>, groupDepth = 0,
       prefixes_block = [], prefixes_inline = [], prefixes_system = [],
       prefixes_interpolator = []\<rparr>"

text \<open>\<open>new Parser(scanner, config).parse()\<close>: the document of the root, which is the last
  node of the block stack, and of the messages.\<close>

definition parse ::
  "nat \<Rightarrow> ('s, 't) penv \<Rightarrow> string \<Rightarrow> config \<Rightarrow> 't \<Rightarrow> 's document option" where
  "parse n env source cfg payload =
     (case DOCUMENT n env (new_Parser source cfg payload) of
        None \<Rightarrow> None
      | Some st \<Rightarrow>
          (if blockStack st = [] then None
           else Some \<lparr>root = last (blockStack st), doc_messages = messages st\<rparr>))"

section \<open>Measures of a tree and of a message list\<close>

text \<open>A \<open>ReachedReparseLimit\<close> message, possibly under \<open>ReferredMessage\<close> layers.\<close>

fun is_limit :: "msg \<Rightarrow> bool" where
  "is_limit (ReachedReparseLimitMessage p l lim n) = True"
| "is_limit (ReferredMessage m p l) = is_limit m"
| "is_limit _ = False"

definition limit_count :: "msg list \<Rightarrow> nat" where
  "limit_count ms = length (filter is_limit ms)"

definition maxl :: "nat list \<Rightarrow> nat" where
  "maxl ns = foldr max ns 0"

text \<open>The levels of generated nodes in a tree: the longest chain of \<open>expansion\<close> fields
  on a path from the node down.\<close>

fun gen_depth :: "'s node \<Rightarrow> nat" where
  "gen_depth (RootN s e c) = maxl (map gen_depth c)"
| "gen_depth (ParagraphN s e c) = maxl (map gen_depth c)"
| "gen_depth (ModifierN m c x) =
     max (maxl (map gen_depth c))
         (case x of None \<Rightarrow> 0 | Some xs \<Rightarrow> 1 + maxl (map gen_depth xs))"
| "gen_depth n = 0"

section \<open>Examples\<close>

text \<open>Concrete inputs for the instances below.\<close>

definition example_block :: "unit modinfo" where
  "example_block = \<lparr>mtype = Block,
     mmod = \<lparr>ident = 0, name = ''UNKNOWN'', flags = ModifierFlags_Normal,
             delayContentExpansion = False, alwaysTryExpand = False\<rparr>,
     mhead = (0, 10), marguments = [], mstate = None, mstart = 0, mend = 16\<rparr>"

definition no_hooks :: "(unit, unit) hooks" where
  "no_hooks = \<lparr>beforeParseContent = None, afterParseContent = None,
     beforeProcessExpansion = None, afterProcessExpansion = None,
     prepareExpand = None, expand_hook = None\<rparr>"

definition example_mod :: "string \<Rightarrow> moddef" where
  "example_mod n = \<lparr>ident = length n, name = n, flags = ModifierFlags_Normal,
             delayContentExpansion = False, alwaysTryExpand = False\<rparr>"

definition example_config :: config where
  "example_config = \<lparr>blockModifiers = [(''em'', example_mod ''em''), (''emph'', example_mod ''emph'')],
     inlineModifiers = [], systemModifiers = [], argumentInterpolators = []\<rparr>"

definition example_document :: "unit document" where
  "example_document = \<lparr>root = RootN 0 (- 1)
        [ModifierN (example_block\<lparr>mtype := System\<rparr>) [ParagraphN 3 4 [TextN 3 4 ''s'']] (Some []),
         ModifierN example_block [PreN 0 1 0 1 ''p'']
           (Some [ParagraphN 0 2 [TextN 0 1 ''a'', EscapedN 1 2 ''b'']]),
         ModifierN example_block [ParagraphN 5 6 [TextN 5 6 ''c'']] None],
      doc_messages = [UnknownModifierMessage 0 9]\<rparr>"

definition outer_mod :: moddef where
  "outer_mod = \<lparr>ident = 10, name = ''outer'', flags = ModifierFlags_Normal,
     delayContentExpansion = False, alwaysTryExpand = False\<rparr>"

definition inner_mod :: moddef where
  "inner_mod = \<lparr>ident = 11, name = ''inner'', flags = ModifierFlags_Normal,
     delayContentExpansion = False, alwaysTryExpand = False\<rparr>"

definition inner_node :: "unit node" where
  "inner_node = ModifierN \<lparr>mtype = Block, mmod = inner_mod, mhead = (0, 0), marguments = [],
     mstate = None, mstart = 0, mend = 0\<rparr> [] None"

definition referring_env :: "(unit, unit) penv" where
  "referring_env = \<lparr>hooks_of = (\<lambda>d.
       if name d = ''outer''
       then no_hooks\<lparr>expand_hook := Some (\<lambda>node c. (Nodes [inner_node], no_writes, c))\<rparr>
       else if name d = ''inner''
       then no_hooks\<lparr>prepareExpand := Some (\<lambda>node c. ([HostMessage 7 0 0], no_writes, c))\<rparr>
       else no_hooks),
     reparseDepthLimit = 10\<rparr>"

definition referring_config :: config where
  "referring_config = \<lparr>blockModifiers = [(''outer'', outer_mod), (''inner'', inner_mod)],
     inlineModifiers = [], systemModifiers = [], argumentInterpolators = []\<rparr>"

definition no_env :: "(unit, unit) penv" where
  "no_env = \<lparr>hooks_of = (\<lambda>d. no_hooks), reparseDepthLimit = 10\<rparr>"

definition no_config :: config where
  "no_config = \<lparr>blockModifiers = [], inlineModifiers = [], systemModifiers = [],
     argumentInterpolators = []\<rparr>"


section \<open>Properties\<close>

declare acceptUntil.simps [simp del]

subsection \<open>The stages of \<open>#expand\<close>, and what every expansion preserves\<close>

lemma expand_stages:
  "expand env (ModifierN m content expansion) depth st =
     (if expansion \<noteq> None \<or> (delayDepth (cxt st) > 0 \<and> \<not> alwaysTryExpand (mmod m))
      then (True, ModifierN m content expansion, st)
      else
        (case expand_content env m content depth st of
           (node1, st1) \<Rightarrow>
             (case expand_call (hooks_of env (mmod m)) node1 st1 of
                (shared, (m3, content3, x3), st3) \<Rightarrow>
                  if (expand_hook (hooks_of env (mmod m)) \<noteq> None \<and> x3 = None)
                     \<or> (case x3 of Some ex \<Rightarrow> ex | None \<Rightarrow> content3) = []
                  then (True, ModifierN m3 content3 x3, st3)
                  else expand_expansion env (hooks_of env (mmod m)) shared (m3, content3, x3)
                         depth st3)))"
proof -
  let ?h = "hooks_of env (mmod m)"
  obtain node1 st1 where A: "expand_content env m content depth st = (node1, st1)"
    by (metis surj_pair)
  obtain shared m3 content3 x3 st3 where
    B: "expand_call ?h node1 st1 = (shared, (m3, content3, x3), st3)"
    by (metis prod_cases3)
  obtain ok node' st' where
    C: "expand_expansion env ?h shared (m3, content3, x3) depth st3 = (ok, node', st')"
    by (metis prod_cases3)
  obtain w2 node2 st2 where D: "call_hook (prepareExpand ?h) node1 st1 = (w2, node2, st2)"
    by (metis prod_cases3)
  note A' = A[unfolded expand_content_def Let_def]
  note B' = B[unfolded expand_call_def Let_def D prod.case]
  note C' = C[unfolded expand_expansion_def Let_def prod.case]
  show ?thesis
    unfolding A B C prod.case
    apply (simp only: expand.simps Let_def)
    apply (simp only: A' prod.case D)
    apply (simp only: B' prod.case)
    apply (simp only: C')
    apply auto
    done
qed


declare reparse.simps [simp del] expand.simps [simp del]

lemma hooks_in_simps [simp]:
  "beforeParseContent (hooks_of env d) \<in> hooks_in env"
  "afterParseContent (hooks_of env d) \<in> hooks_in env"
  "beforeProcessExpansion (hooks_of env d) \<in> hooks_in env"
  "afterProcessExpansion (hooks_of env d) \<in> hooks_in env"
  "prepareExpand (hooks_of env d) \<in> hooks_in env"
  by (auto simp: hooks_in_def)

lemma refer_wrap_frames: "refer m (rev frames) = wrap_frames frames m"
  by (induction frames) (simp_all add: refer_def)

lemma message_conv:
  "message ms st = st\<lparr>messages := messages st @ map (wrap_frames (referringStack st)) ms\<rparr>"
proof -
  have "foldl (\<lambda>s msg. s\<lparr>messages := messages s @ [g msg]\<rparr>) st ms
          = st\<lparr>messages := messages st @ map g ms\<rparr>" for g :: "msg \<Rightarrow> msg"
    by (induction ms arbitrary: st) simp_all
  then show ?thesis
    by (simp add: message_def Let_def refer_wrap_frames)
qed

lemma message_simps [simp]:
  "cxt (message ms st) = cxt st"
  "referringStack (message ms st) = referringStack st"
  "src (message ms st) = src st"
  "pos (message ms st) = pos st"
  "blockStack (message ms st) = blockStack st"
  "inlineStack (message ms st) = inlineStack st"
  "groupDepth (message ms st) = groupDepth st"
  "prefixes_block (message ms st) = prefixes_block st"
  "prefixes_inline (message ms st) = prefixes_inline st"
  "prefixes_system (message ms st) = prefixes_system st"
  "prefixes_interpolator (message ms st) = prefixes_interpolator st"
  "messages (message ms st) = messages st @ map (wrap_frames (referringStack st)) ms"
  by (simp_all add: message_conv)

lemma set_cxt_simps [simp]:
  "cxt (set_cxt c st) = c"
  "referringStack (set_cxt c st) = referringStack st"
  "src (set_cxt c st) = src st"
  "pos (set_cxt c st) = pos st"
  "blockStack (set_cxt c st) = blockStack st"
  "inlineStack (set_cxt c st) = inlineStack st"
  "groupDepth (set_cxt c st) = groupDepth st"
  "messages (set_cxt c st) = messages st"
  "prefixes_block (set_cxt c st) = sort_by_length (blockModifiers (config c))"
  "prefixes_inline (set_cxt c st) = sort_by_length (inlineModifiers (config c))"
  "prefixes_system (set_cxt c st) = sort_by_length (systemModifiers (config c))"
  "prefixes_interpolator (set_cxt c st) = sort_by_length (argumentInterpolators (config c))"
  by (simp_all add: set_cxt_def sortModifiers_def)


lemma call_hook_cases:
  assumes "call_hook g (m, c, x) st = (w, node', st')"
  obtains (none) "g = None" "w = no_writes" "node' = (m, c, x)" "st' = st"
  | (some) f msgs c' where "g = Some f" "f (ModifierN m c x) (cxt st) = (msgs, w, c')"
      "node' = apply_writes w (m, c, x)" "st' = message msgs (set_cxt c' st)"
  using assms by (auto simp: call_hook_def split: option.splits prod.splits)

lemma apply_writes_head:
  "apply_writes w (m, c, x) = (m', c', x') \<Longrightarrow> \<exists>s. m' = m\<lparr>mstate := s\<rparr>"
  by (cases "w_state w") (auto simp: apply_writes_def intro: exI[of _ "mstate m"])

lemma call_hook_head:
  assumes "call_hook g (m, c, x) st = (w, (m', c', x'), st')"
  shows "\<exists>s. m' = m\<lparr>mstate := s\<rparr>"
  using assms
proof (cases rule: call_hook_cases)
  case none
  then show ?thesis by (auto intro: exI[of _ "mstate m"])
next
  case (some f msgs c'')
  then show ?thesis using apply_writes_head[of w m c x m' c' x'] by simp
qed

lemma depth_induct:
  fixes P E :: "nat \<Rightarrow> bool" and L :: int
  assumes beyond: "\<And>d. L < int d \<Longrightarrow> P d"
    and within: "\<And>d. int d \<le> L \<Longrightarrow> P (d + 1) \<Longrightarrow> E (d + 1) \<Longrightarrow> P d"
    and same: "\<And>d. P d \<Longrightarrow> E d"
  shows "P d \<and> E d"
proof -
  have "P d" for d
  proof (induction "nat (L + 1 - int d)" arbitrary: d)
    case 0
    then show ?case using beyond by simp
  next
    case (Suc n)
    then have le: "int d \<le> L" and n: "n = nat (L + 1 - int (d + 1))" by auto
    from Suc(1)[OF n] have "P (d + 1)" .
    with within[OF le] same show ?case by blast
  qed
  then show ?thesis using same by blast
qed

lemma reparse_nodes_rel:
  assumes refl: "\<And>s. R s s"
    and trans: "\<And>s s' s''. R s s' \<Longrightarrow> R s' s'' \<Longrightarrow> R s s''"
    and P: "\<And>nodes st r nodes' st'. reparse env nodes (depth + 1) st = (r, nodes', st') \<Longrightarrow> R st st'"
    and E: "\<And>node st r node' st'. expand env node (depth + 1) st = (r, node', st') \<Longrightarrow> R st st'"
  shows "reparse_nodes env nodes depth ok st = (r, nodes', st') \<Longrightarrow> R st st'"
proof (induction nodes arbitrary: ok st r nodes' st')
  case Nil
  then show ?case using refl by simp
next
  case (Cons node rest)
  show ?case
  proof (cases node)
    case (ParagraphN s e content)
    obtain r1 c1 s1 where a: "reparse env content (depth + 1) st = (r1, c1, s1)"
      by (metis prod_cases3)
    obtain r2 c2 s2 where b: "reparse_nodes env rest depth (r1 \<and> ok) s1 = (r2, c2, s2)"
      by (metis prod_cases3)
    from Cons.prems ParagraphN a b have "st' = s2" by simp
    with P[OF a] Cons.IH[OF b] trans show ?thesis by blast
  next
    case (ModifierN m content expansion)
    obtain r1 c1 s1 where a: "expand env (ModifierN m content expansion) (depth + 1) st = (r1, c1, s1)"
      by (metis prod_cases3)
    obtain r2 c2 s2 where b: "reparse_nodes env rest depth (r1 \<and> ok) s1 = (r2, c2, s2)"
      by (metis prod_cases3)
    from Cons.prems ModifierN a b have "st' = s2" by simp
    with E[OF a] Cons.IH[OF b] trans show ?thesis by blast
  next
    case (RootN s e c)
    obtain r2 c2 s2 where b: "reparse_nodes env rest depth ok st = (r2, c2, s2)"
      by (metis prod_cases3)
    from Cons.prems RootN b have "st' = s2" by simp
    with Cons.IH[OF b] show ?thesis by blast
  next
    case (PreN s e cs ce t)
    obtain r2 c2 s2 where b: "reparse_nodes env rest depth ok st = (r2, c2, s2)"
      by (metis prod_cases3)
    from Cons.prems PreN b have "st' = s2" by simp
    with Cons.IH[OF b] show ?thesis by blast
  next
    case (TextN s e t)
    obtain r2 c2 s2 where b: "reparse_nodes env rest depth ok st = (r2, c2, s2)"
      by (metis prod_cases3)
    from Cons.prems TextN b have "st' = s2" by simp
    with Cons.IH[OF b] show ?thesis by blast
  next
    case (EscapedN s e t)
    obtain r2 c2 s2 where b: "reparse_nodes env rest depth ok st = (r2, c2, s2)"
      by (metis prod_cases3)
    from Cons.prems EscapedN b have "st' = s2" by simp
    with Cons.IH[OF b] show ?thesis by blast
  qed
qed


lemma expand_content_rel:
  assumes refl: "\<And>s. R s s"
    and trans: "\<And>s s' s''. R s s' \<Longrightarrow> R s' s'' \<Longrightarrow> R s s''"
    and hook: "\<And>g n s w n' s'. g \<in> hooks_in env \<Longrightarrow> call_hook g n s = (w, n', s') \<Longrightarrow> R s s'"
    and delay: "\<And>s s'. R (add_delayDepth 1 s) s' \<Longrightarrow> R s (add_delayDepth (- 1) s')"
    and P: "\<And>nodes st r nodes' st'. reparse env nodes depth st = (r, nodes', st') \<Longrightarrow> R st st'"
    and ec: "expand_content env m content depth st = ((m1, content1, x1), st1)"
  shows "R st st1 \<and> (\<exists>s. m1 = m\<lparr>mstate := s\<rparr>)"
proof (cases "content \<noteq> [] \<and> depth > 0")
  case False
  with ec have "st1 = st" "m1 = m" by (auto simp: expand_content_def)
  with refl show ?thesis by (auto intro: exI[of _ "mstate m"])
next
  case True
  let ?h = "hooks_of env (mmod m)"
  obtain wa ma contenta xa sa where
    a: "call_hook (beforeParseContent ?h) (m, content, None) st = (wa, (ma, contenta, xa), sa)"
    by (metis prod_cases3)
  let ?sb = "if delayContentExpansion (mmod m) then add_delayDepth 1 sa else sa"
  obtain r contentc sc where b: "reparse env contenta depth ?sb = (r, contentc, sc)"
    by (metis prod_cases3)
  let ?sd = "if delayContentExpansion (mmod m) then add_delayDepth (- 1) sc else sc"
  obtain we me contente xe se where
    c: "call_hook (afterParseContent ?h) (ma, contentc, xa) ?sd = (we, (me, contente, xe), se)"
    by (metis prod_cases3)
  from ec True a b c have se: "st1 = se" "m1 = me"
    by (simp_all add: expand_content_def Let_def)
  have 1: "R st sa"
    using hook[OF _ a] by simp
  have 2: "R sa ?sd"
    using P[OF b] delay by (auto split: if_splits)
  have 3: "R ?sd se"
    using hook[OF _ c] by simp
  from call_hook_head[OF a] call_hook_head[OF c] have "\<exists>s. me = m\<lparr>mstate := s\<rparr>"
    by auto
  with 1 2 3 se trans show ?thesis by blast
qed

lemma expand_call_rel:
  assumes refl: "\<And>s. R s s"
    and trans: "\<And>s s' s''. R s s' \<Longrightarrow> R s' s'' \<Longrightarrow> R s s''"
    and hook: "\<And>g n s w n' s'. g \<in> hooks_in env \<Longrightarrow> call_hook g n s = (w, n', s') \<Longrightarrow> R s s'"
    and xhook: "\<And>d f node s ret w c. expand_hook (hooks_of env d) = Some f
                 \<Longrightarrow> f node (cxt s) = (ret, w, c) \<Longrightarrow> R s (set_cxt c s)"
    and ec: "expand_call (hooks_of env d) (m1, content1, x1) st1 = (shared, (m3, content3, x3), st3)"
  shows "R st1 st3 \<and> (\<exists>s. m3 = m1\<lparr>mstate := s\<rparr>)"
proof -
  obtain w2 m2 content2 x2 st2 where
    a: "call_hook (prepareExpand (hooks_of env d)) (m1, content1, x1) st1 = (w2, (m2, content2, x2), st2)"
    by (metis prod_cases3)
  have 1: "R st1 st2"
    using hook[OF _ a] by simp
  from call_hook_head[OF a] obtain s2 where m2: "m2 = m1\<lparr>mstate := s2\<rparr>" by blast
  have 2: "R st2 st3 \<and> (\<exists>s. m3 = m2\<lparr>mstate := s\<rparr>)"
  proof (cases "expand_hook (hooks_of env d)")
    case None
    with ec a refl show ?thesis
      by (auto simp add: expand_call_def intro: exI[of _ "mstate m2"])
  next
    case (Some f)
    obtain ret w c where f: "f (ModifierN m2 content2 x2) (cxt st2) = (ret, w, c)"
      by (metis prod_cases3)
    obtain mw contentw xw where aw: "apply_writes w (m2, content2, x2) = (mw, contentw, xw)"
      by (metis prod_cases3)
    with ec a Some f have "st3 = set_cxt c st2" "m3 = mw" by (simp_all add: expand_call_def)
    with xhook[OF Some f] apply_writes_head[OF aw] show ?thesis by simp
  qed
  with 1 m2 trans show ?thesis by auto
qed

lemma expand_expansion_rel:
  assumes refl: "\<And>s. R s s"
    and trans: "\<And>s s' s''. R s s' \<Longrightarrow> R s' s'' \<Longrightarrow> R s s''"
    and hook: "\<And>g n s w n' s'. g \<in> hooks_in env \<Longrightarrow> call_hook g n s = (w, n', s') \<Longrightarrow> R s s'"
    and refer: "\<And>a b s s'. R (pushReferring a b s) s' \<Longrightarrow> R s (popReferring s')"
    and P: "\<And>nodes st r nodes' st'. reparse env nodes depth st = (r, nodes', st') \<Longrightarrow> R st st'"
    and ee: "expand_expansion env (hooks_of env d) shared (m3, content3, x3) depth st3 = (ok, node', st')"
  shows "\<exists>st6. R st3 st6
           \<and> st' = (if \<not> ok \<and> depth = 0 then
                   message [ReachedReparseLimitMessage (mstart m3)
                      (mend m3 - mstart m3) (reparseDepthLimit env) (name (mmod m3))] st6
                 else st6)"
proof -
  let ?h = "hooks_of env d"
  obtain w4 m4 content4 x4 st4 where
    a: "call_hook (beforeProcessExpansion ?h) (m3, content3, x3) st3 = (w4, (m4, content4, x4), st4)"
    by (metis prod_cases3)
  obtain r reparsed st5 where b: "reparse env (case x3 of Some ex \<Rightarrow> ex | None \<Rightarrow> content3) depth
               (pushReferring (mstart m4) (mend m4) st4) = (r, reparsed, st5)"
    by (metis prod_cases3)
  let ?content5 = "if (x3 = None \<or> shared) \<and> w_content w4 = None then reparsed else content4"
  let ?x5 = "if x3 \<noteq> None \<and> w_expansion w4 = None then Some reparsed else x4"
  obtain w6 m6 content6 x6 st6 where
    c: "call_hook (afterProcessExpansion ?h) (m4, ?content5, ?x5) (popReferring st5)
          = (w6, (m6, content6, x6), st6)"
    by (metis prod_cases3)
  from ee a b c have res: "ok = r" "st' = (if \<not> r \<and> depth = 0 then
                   message [ReachedReparseLimitMessage (mstart m6)
                      (mend m6 - mstart m6) (reparseDepthLimit env) (name (mmod m6))] st6
                 else st6)"
    by (auto simp add: expand_expansion_def Let_def)
  have 1: "R st3 st4" using hook[OF _ a] by simp
  have 2: "R st4 (popReferring st5)" using refer[OF P[OF b]] .
  have 3: "R (popReferring st5) st6" using hook[OF _ c] by simp
  have m: "mstart m6 = mstart m3" "mend m6 = mend m3" "mmod m6 = mmod m3"
    using call_hook_head[OF a] call_hook_head[OF c] by auto
  from 1 2 3 trans have r: "R st3 st6" by blast
  have "R st3 st6
           \<and> st' = (if \<not> ok \<and> depth = 0 then
                   message [ReachedReparseLimitMessage (mstart m3)
                      (mend m3 - mstart m3) (reparseDepthLimit env) (name (mmod m3))] st6
                 else st6)"
    using res(2) r unfolding res(1) by (simp add: m)
  then show ?thesis ..
qed

lemma expand_rel_step:
  assumes refl: "\<And>s. R s s"
    and trans: "\<And>s s' s''. R s s' \<Longrightarrow> R s' s'' \<Longrightarrow> R s s''"
    and hook: "\<And>g n s w n' s'. g \<in> hooks_in env \<Longrightarrow> call_hook g n s = (w, n', s') \<Longrightarrow> R s s'"
    and xhook: "\<And>d f node s ret w c. expand_hook (hooks_of env d) = Some f
                 \<Longrightarrow> f node (cxt s) = (ret, w, c) \<Longrightarrow> R s (set_cxt c s)"
    and delay: "\<And>s s'. R (add_delayDepth 1 s) s' \<Longrightarrow> R s (add_delayDepth (- 1) s')"
    and refer: "\<And>a b s s'. R (pushReferring a b s) s' \<Longrightarrow> R s (popReferring s')"
    and P: "\<And>nodes st r nodes' st'. reparse env nodes d st = (r, nodes', st') \<Longrightarrow> R st st'"
    and e: "expand env (ModifierN m content expansion) d st = (r, node', st')"
  shows "\<exists>st6. R st st6
           \<and> st' = (if \<not> r \<and> d = 0 then
                   message [ReachedReparseLimitMessage (mstart m)
                      (mend m - mstart m) (reparseDepthLimit env) (name (mmod m))] st6
                 else st6)"
proof (cases "expansion \<noteq> None \<or> (delayDepth (cxt st) > 0 \<and> \<not> alwaysTryExpand (mmod m))")
  case True
  with e have "st' = st" "r" by (auto simp add: expand_stages)
  with refl show ?thesis by auto
next
  case False
  obtain m1 content1 x1 st1 where a: "expand_content env m content d st = ((m1, content1, x1), st1)"
    by (metis surj_pair)
  obtain shared m3 content3 x3 st3 where
    b: "expand_call (hooks_of env (mmod m)) (m1, content1, x1) st1 = (shared, (m3, content3, x3), st3)"
    by (metis prod_cases3)
  have 1: "R st st1 \<and> (\<exists>s. m1 = m\<lparr>mstate := s\<rparr>)"
    by (rule expand_content_rel[where R = R, OF refl trans hook delay P a])
  have 2: "R st1 st3 \<and> (\<exists>s. m3 = m1\<lparr>mstate := s\<rparr>)"
    by (rule expand_call_rel[where R = R, OF refl trans hook xhook b])
  from 1 2 trans have 3: "R st st3" by blast
  have m: "mstart m3 = mstart m" "mend m3 = mend m" "mmod m3 = mmod m"
    using 1 2 by auto
  show ?thesis
  proof (cases "(expand_hook (hooks_of env (mmod m)) \<noteq> None \<and> x3 = None)
                     \<or> (case x3 of Some ex \<Rightarrow> ex | None \<Rightarrow> content3) = []")
    case True
    with e False a b have "st' = st3" "r" by (auto simp add: expand_stages)
    with 3 show ?thesis by auto
  next
    case stage: False
    with e False a b
    have c: "expand_expansion env (hooks_of env (mmod m)) shared (m3, content3, x3) d st3 = (r, node', st')"
      by (auto simp add: expand_stages)
    have "\<exists>st6. R st3 st6
           \<and> st' = (if \<not> r \<and> d = 0 then
                   message [ReachedReparseLimitMessage (mstart m3)
                      (mend m3 - mstart m3) (reparseDepthLimit env) (name (mmod m3))] st6
                 else st6)"
      by (rule expand_expansion_rel[where R = R, OF refl trans hook refer P c])
    then obtain st6 where "R st3 st6" and s: "st' = (if \<not> r \<and> d = 0 then
                   message [ReachedReparseLimitMessage (mstart m3)
                      (mend m3 - mstart m3) (reparseDepthLimit env) (name (mmod m3))] st6
                 else st6)" by blast
    with 3 trans have "R st st6" by blast
    with s m show ?thesis by auto
  qed
qed

lemma expand_nonmodifier:
  "\<not> is_modifier node \<Longrightarrow> expand env node d st = (True, node, st)"
  by (cases node) (simp_all add: expand.simps)


lemma expand_reparse_rel:
  assumes refl: "\<And>s. R s s"
    and trans: "\<And>s s' s''. R s s' \<Longrightarrow> R s' s'' \<Longrightarrow> R s s''"
    and hook: "\<And>g n s w n' s'. g \<in> hooks_in env \<Longrightarrow> call_hook g n s = (w, n', s') \<Longrightarrow> R s s'"
    and xhook: "\<And>d f node s ret w c. expand_hook (hooks_of env d) = Some f \<Longrightarrow> f node (cxt s) = (ret, w, c)
                 \<Longrightarrow> R s (set_cxt c s)"
    and delay: "\<And>s s'. R (add_delayDepth 1 s) s' \<Longrightarrow> R s (add_delayDepth (- 1) s')"
    and refer: "\<And>a b s s'. R (pushReferring a b s) s' \<Longrightarrow> R s (popReferring s')"
  shows "(\<forall>nodes st r nodes' st'. reparse env nodes depth st = (r, nodes', st') \<longrightarrow> R st st')
       \<and> (\<forall>node st r node' st'. 0 < depth \<longrightarrow> expand env node depth st = (r, node', st') \<longrightarrow> R st st')"
proof (rule depth_induct[where L = "reparseDepthLimit env"])
  fix d assume "reparseDepthLimit env < int d"
  then show "\<forall>nodes st r nodes' st'. reparse env nodes d st = (r, nodes', st') \<longrightarrow> R st st'"
    using refl by (auto simp: reparse.simps)
next
  fix d
  assume le: "int d \<le> reparseDepthLimit env"
    and P: "\<forall>nodes st r nodes' st'. reparse env nodes (d + 1) st = (r, nodes', st') \<longrightarrow> R st st'"
    and E: "\<forall>node st r node' st'. 0 < d + 1 \<longrightarrow> expand env node (d + 1) st = (r, node', st') \<longrightarrow> R st st'"
  show "\<forall>nodes st r nodes' st'. reparse env nodes d st = (r, nodes', st') \<longrightarrow> R st st'"
  proof (intro allI impI)
    fix nodes st r nodes' st'
    assume "reparse env nodes d st = (r, nodes', st')"
    with le have rn: "reparse_nodes env nodes d True st = (r, nodes', st')"
      by (simp add: reparse.simps)
    show "R st st'"
      by (rule reparse_nodes_rel[where R = R, OF refl trans _ _ rn]) (use P E in auto)
  qed
next
  fix d
  assume P: "\<forall>nodes st r nodes' st'. reparse env nodes d st = (r, nodes', st') \<longrightarrow> R st st'"
  show "\<forall>node st r node' st'. 0 < d \<longrightarrow> expand env node d st = (r, node', st') \<longrightarrow> R st st'"
  proof (intro allI impI)
    fix node st r node' st'
    assume d: "0 < d" and e: "expand env node d st = (r, node', st')"
    show "R st st'"
    proof (cases "is_modifier node")
      case True
      then obtain m content expansion where n: "node = ModifierN m content expansion"
        by (cases node) auto
      from P have P': "\<And>nodes st r nodes' st'. reparse env nodes d st = (r, nodes', st') \<Longrightarrow> R st st'"
        by blast
      from expand_rel_step[where R = R, OF refl trans hook xhook delay refer P' e[unfolded n]] d
      show ?thesis by auto
    next
      case False
      with e refl show ?thesis by (simp add: expand_nonmodifier)
    qed
  qed
qed


lemma expand_reparse_obs:
  assumes hook: "\<And>g n s w n' s'. g \<in> hooks_in env \<Longrightarrow> call_hook g n s = (w, n', s')
                   \<Longrightarrow> obs s' = obs s"
    and xhook: "\<And>d f node s ret w c. expand_hook (hooks_of env d) = Some f
                   \<Longrightarrow> f node (cxt s) = (ret, w, c) \<Longrightarrow> obs (set_cxt c s) = obs s"
    and delay: "\<And>s s'. obs s' = obs (add_delayDepth 1 s) \<Longrightarrow> obs (add_delayDepth (- 1) s') = obs s"
    and refer: "\<And>a b s s'. obs s' = obs (pushReferring a b s) \<Longrightarrow> obs (popReferring s') = obs s"
    and limit: "\<And>s a b c d. obs (message [ReachedReparseLimitMessage a b c d] s) = obs s"
  shows "reparse env nodes depth st = (r, nodes', st') \<Longrightarrow> obs st' = obs st"
    and "expand env node depth st = (r, node', st') \<Longrightarrow> obs st' = obs st"
proof -
  define R where "R = (\<lambda>s s'. obs s' = obs s)"
  have refl: "\<And>s. R s s" by (simp add: R_def)
  have trans: "\<And>s s' s''. R s s' \<Longrightarrow> R s' s'' \<Longrightarrow> R s s''" by (simp add: R_def)
  have hookR: "\<And>g n s w n' s'. g \<in> hooks_in env \<Longrightarrow> call_hook g n s = (w, n', s') \<Longrightarrow> R s s'"
    unfolding R_def by (rule hook)
  have xhookR: "\<And>d f node s ret w c. expand_hook (hooks_of env d) = Some f
                   \<Longrightarrow> f node (cxt s) = (ret, w, c) \<Longrightarrow> R s (set_cxt c s)"
    unfolding R_def by (rule xhook)
  have delayR: "\<And>s s'. R (add_delayDepth 1 s) s' \<Longrightarrow> R s (add_delayDepth (- 1) s')"
    unfolding R_def by (rule delay)
  have referR: "\<And>a b s s'. R (pushReferring a b s) s' \<Longrightarrow> R s (popReferring s')"
    unfolding R_def by (rule refer)
  have all: "(\<forall>nodes st r nodes' st'. reparse env nodes d st = (r, nodes', st') \<longrightarrow> R st st')
       \<and> (\<forall>node st r node' st'. 0 < d \<longrightarrow> expand env node d st = (r, node', st') \<longrightarrow> R st st')" for d
    by (rule expand_reparse_rel[where R = R and env = env, OF refl trans hookR xhookR delayR referR])
  have P: "reparse env nodes d st = (r, nodes', st') \<Longrightarrow> R st st'" for nodes d st r nodes' st'
    using all[of d] by blast
  show "reparse env nodes depth st = (r, nodes', st') \<Longrightarrow> obs st' = obs st"
    using P[of nodes depth st r nodes' st'] by (simp add: R_def)
  show "expand env node depth st = (r, node', st') \<Longrightarrow> obs st' = obs st"
  proof (cases "is_modifier node")
    case True
    assume e: "expand env node depth st = (r, node', st')"
    from True obtain m content expansion where n: "node = ModifierN m content expansion"
      by (cases node) auto
    have "\<exists>st6. R st st6
           \<and> st' = (if \<not> r \<and> depth = 0 then
                   message [ReachedReparseLimitMessage (mstart m)
                      (mend m - mstart m) (reparseDepthLimit env) (name (mmod m))] st6
                 else st6)"
      by (rule expand_rel_step[where R = R, OF refl trans hookR xhookR delayR referR P e[unfolded n]])
    then obtain st6 where 1: "obs st6 = obs st" and 2: "st' = (if \<not> r \<and> depth = 0 then
                   message [ReachedReparseLimitMessage (mstart m)
                      (mend m - mstart m) (reparseDepthLimit env) (name (mmod m))] st6
                 else st6)"
      unfolding R_def by blast
    show ?thesis
    proof (cases "\<not> r \<and> depth = 0")
      case True
      with 2 have "st' = message [ReachedReparseLimitMessage (mstart m)
                      (mend m - mstart m) (reparseDepthLimit env) (name (mmod m))] st6" by simp
      with limit 1 show ?thesis by simp
    next
      case False
      with 2 have "st' = st6" by simp
      with 1 show ?thesis by simp
    qed
  next
    case False
    assume "expand env node depth st = (r, node', st')"
    with False show ?thesis by (simp add: expand_nonmodifier)
  qed
qed

text \<open>Observations of the state that no hook can touch.\<close>

lemma expand_reparse_frame:
  assumes msg: "\<And>s ms. obs (message ms s) = obs s"
    and sc: "\<And>s c. obs (set_cxt c s) = obs s"
    and delay: "\<And>s s'. obs s' = obs (add_delayDepth 1 s) \<Longrightarrow> obs (add_delayDepth (- 1) s') = obs s"
    and refer: "\<And>a b s s'. obs s' = obs (pushReferring a b s) \<Longrightarrow> obs (popReferring s') = obs s"
  shows "reparse env nodes depth st = (r, nodes', st') \<Longrightarrow> obs st' = obs st"
    and "expand env node depth st = (r, node', st') \<Longrightarrow> obs st' = obs st"
proof -
  have hook: "g \<in> hooks_in env \<Longrightarrow> call_hook g n s = (w, n', s') \<Longrightarrow> obs s' = obs s"
    for g n s w n' s'
    by (cases n) (auto simp: call_hook_def msg sc split: option.splits prod.splits)
  show "reparse env nodes depth st = (r, nodes', st') \<Longrightarrow> obs st' = obs st"
    by (rule expand_reparse_obs(1)[where obs = obs and env = env, OF hook sc delay refer msg])
  show "expand env node depth st = (r, node', st') \<Longrightarrow> obs st' = obs st"
    by (rule expand_reparse_obs(2)[where obs = obs and env = env, OF hook sc delay refer msg])
qed

lemma reparse_referringStack:
  "reparse env nodes depth st = (r, nodes', st') \<Longrightarrow> referringStack st' = referringStack st"
  by (rule expand_reparse_frame(1)[where obs = referringStack])
    (simp_all add: add_delayDepth_def pushReferring_def popReferring_def)

lemma expand_referringStack:
  "expand env node depth st = (r, node', st') \<Longrightarrow> referringStack st' = referringStack st"
  by (rule expand_reparse_frame(2)[where obs = referringStack])
    (simp_all add: add_delayDepth_def pushReferring_def popReferring_def)

lemma expand_scanner:
  "expand env node depth st = (r, node', st') \<Longrightarrow>
     src st' = src st \<and> pos st' = pos st \<and> blockStack st' = blockStack st
     \<and> inlineStack st' = inlineStack st \<and> groupDepth st' = groupDepth st"
  by (rule expand_reparse_frame(2)[where obs = "\<lambda>s. (src s, pos s, blockStack s, inlineStack s, groupDepth s)", simplified])
    (simp_all add: add_delayDepth_def pushReferring_def popReferring_def)



subsection \<open>Messages of an expansion\<close>

text \<open>
  \<open>EmitEnvironment.message\<close> wraps a message once for every frame of the referring stack,
  the innermost frame innermost, and \<open>#expand\<close> puts the range of its node on the stack
  around the re-parse of the expansion. So whatever is stored during a re-parse carries a
  layer for every frame that was there at its start, and the messages of the re-parse of
  an expansion carry the range that the node of the expansion has in its \<open>start\<close> and
  \<open>end\<close>.
\<close>

lemma wrap_frames_snoc:
  "wrap_frames (frames @ [(a, b)]) m = wrap_frames frames (ReferredMessage m a (b - a))"
  by (induction frames) simp_all

lemma referred_refl: "referred s s"
  by (simp add: referred_def)

lemma referred_trans: "referred s s' \<Longrightarrow> referred s' s'' \<Longrightarrow> referred s s''"
proof -
  assume a: "referred s s'" and b: "referred s' s''"
  from a obtain ms where 1: "referringStack s' = referringStack s"
    and 2: "messages s' = messages s @ map (wrap_frames (referringStack s)) ms"
    unfolding referred_def by blast
  from b obtain ms' where 3: "referringStack s'' = referringStack s'"
    and 4: "messages s'' = messages s' @ map (wrap_frames (referringStack s')) ms'"
    unfolding referred_def by blast
  have "messages s'' = messages s @ map (wrap_frames (referringStack s)) (ms @ ms')"
    by (simp add: 4 2 1)
  with 1 3 show ?thesis unfolding referred_def by metis
qed

lemma referred_hook: "call_hook g n s = (w, n', s') \<Longrightarrow> referred s s'"
  by (cases n) (auto simp: call_hook_def referred_def split: option.splits prod.splits)

lemma referred_set_cxt: "referred s (set_cxt c s)"
  by (simp add: referred_def)

lemma referred_delay: "referred (add_delayDepth 1 s) s' \<Longrightarrow> referred s (add_delayDepth (- 1) s')"
  by (simp add: referred_def add_delayDepth_def)

lemma referred_pop: "referred (pushReferring a b s) s' \<Longrightarrow> referred s (popReferring s')"
proof -
  assume "referred (pushReferring a b s) s'"
  then obtain ms where 1: "referringStack s' = referringStack s @ [(a, b)]"
    and 2: "messages s' = messages s @ map (wrap_frames (referringStack s @ [(a, b)])) ms"
    unfolding referred_def by (auto simp: pushReferring_def)
  have "messages (popReferring s')
      = messages s @ map (wrap_frames (referringStack s)) (map (\<lambda>m. ReferredMessage m a (b - a)) ms)"
    by (simp add: popReferring_def 2 wrap_frames_snoc)
  moreover have "referringStack (popReferring s') = referringStack s"
    by (simp add: popReferring_def 1)
  ultimately show ?thesis unfolding referred_def by metis
qed

lemma reparse_referred:
  "reparse env nodes depth st = (r, nodes', st') \<Longrightarrow> referred st st'"
proof -
  have "(\<forall>nodes st r nodes' st'. reparse env nodes depth st = (r, nodes', st') \<longrightarrow> referred st st')
       \<and> (\<forall>node st r node' st'. 0 < depth \<longrightarrow> expand env node depth st = (r, node', st') \<longrightarrow> referred st st')"
    by (rule expand_reparse_rel[where R = referred and env = env])
       (auto intro: referred_refl referred_trans referred_hook referred_set_cxt referred_delay referred_pop)
  then show "reparse env nodes depth st = (r, nodes', st') \<Longrightarrow> referred st st'" by blast
qed

lemma expansion_messages_referred:
  assumes "reparse env expansion depth (pushReferring (mstart m) (mend m) st) = (ok, nodes', st')"
  shows "\<exists>ms. messages st' = messages st
           @ map (\<lambda>msg. wrap_frames (referringStack st)
                          (ReferredMessage msg (mstart m) (mend m - mstart m))) ms"
proof -
  from reparse_referred[OF assms]
  obtain ms where "messages st' = messages st
        @ map (wrap_frames (referringStack st @ [(mstart m, mend m)])) ms"
    unfolding referred_def by (auto simp: pushReferring_def)
  then have "messages st' = messages st
        @ map (\<lambda>msg. wrap_frames (referringStack st)
                       (ReferredMessage msg (mstart m) (mend m - mstart m))) ms"
    by (simp add: wrap_frames_snoc)
  then show ?thesis ..
qed

text \<open>
  C9. Every message emitted while the expansion of a modifier is re-parsed is to carry, for
  each enclosing expansion, a \<open>ReferredMessage\<close> with the source range of that
  expansion's modifier. The block \<open>[.outer] x\<close> covers the characters 0 to 10, and the
  message that \<open>inner\<close>, a node of its expansion, emits is stored with position 0 and
  length 10. The marker \<open>[.outer;]\<close> covers the characters 0 to 9; \<open>MODIFIER\<close> creates
  every node with \<open>end = -1\<close>, and only \<open>endBlock\<close> and \<open>endInline\<close>, which a marker
  never reaches, set the \<open>end\<close>: the node of the marker keeps \<open>end = -1\<close>, and the same
  message is stored with position 0 and length \<open>-1\<close>.
\<close>

theorem marker_frame_range:
  "parse 20 referring_env ''[.outer;]'' referring_config ()
     = Some \<lparr>root = RootN 0 (- 1)
          [ModifierN \<lparr>mtype = Block, mmod = outer_mod, mhead = (0, 9), marguments = [],
              mstate = None, mstart = 0, mend = - 1\<rparr> [] (Some [inner_node])],
        doc_messages = [ReferredMessage (HostMessage 7 0 0) 0 (- 1)]\<rparr>
   \<and> map_option doc_messages (parse 20 referring_env ''[.outer] x'' referring_config ())
     = Some [ReferredMessage (HostMessage 7 0 0) 0 10]"
  by code_simp

subsection \<open>stripDocument\<close>

lemma stripNode_stripped: "stripNode n = stripped n"
proof (induction n rule: stripNode.induct)
  case (4 m content expansion)
  then show ?case
    by (cases "mtype m"; cases expansion) (auto cong: map_cong)
qed (auto cong: map_cong)

lemma stripNode_clean:
  "n \<in> set (stripNode y) \<Longrightarrow> k \<in> set (subnodes n) \<Longrightarrow> \<not> is_system k \<and> \<not> has_expansion k"
proof (induction y arbitrary: n k rule: stripNode.induct)
  case (4 m content expansion)
  then show ?case
    by (auto split: if_splits option.splits)
qed auto

lemma stripNode_visible_text:
  "concat (map visible_text (stripNode n)) = visible_text n"
proof (induction n rule: stripNode.induct)
  case (4 m content expansion)
  have c: "concat (map visible_text (concat (map stripNode xs))) = concat (map visible_text xs)"
    if "\<And>x. x \<in> set xs \<Longrightarrow> concat (map visible_text (stripNode x)) = visible_text x" for xs :: "'a node list"
    using that by (induction xs) auto
  show ?case
  proof (cases "mtype m = System")
    case True
    then show ?thesis by simp
  next
    case False
    show ?thesis
    proof (cases expansion)
      case None
      have "concat (map visible_text (concat (map stripNode content))) = concat (map visible_text content)"
        by (rule c) (use 4 False None in auto)
      with False None show ?thesis by simp
    next
      case (Some ex)
      have "concat (map visible_text (concat (map stripNode ex))) = concat (map visible_text ex)"
        by (rule c) (use 4 False Some in auto)
      with False Some show ?thesis by simp
    qed
  qed
next
  case (5 s e content)
  have "concat (map visible_text (concat (map stripNode content))) = concat (map visible_text content)"
    using 5 by (induction content) auto
  then show ?case by simp
next
  case (6 s e content)
  have "concat (map visible_text (concat (map stripNode content))) = concat (map visible_text content)"
    using 6 by (induction content) auto
  then show ?case by simp
qed auto

text \<open>
  Claim C3, as stated, fails: a block or inline modifier node without an expansion is
  not dropped. \<open>stripNode\<close> falls through to the case of paragraphs and keeps the node,
  with its content stripped; the document below (the parse of \<open>[.unknown] hello\<close>) is
  its own stripped form.
\<close>

theorem stripDocument_keeps_unexpanded:
  "stripDocument \<lparr>root = RootN 0 (- 1)
        [ModifierN example_block [ParagraphN 11 16 [TextN 11 16 ''hello'']] None],
      doc_messages = [UnknownModifierMessage 0 9]\<rparr>
   = Some \<lparr>root = RootN 0 (- 1)
        [ModifierN example_block [ParagraphN 11 16 [TextN 11 16 ''hello'']] None],
      doc_messages = [UnknownModifierMessage 0 9]\<rparr>"
  by (simp add: stripDocument_def example_block_def)

text \<open>
  Claim C3, amended: \<open>toStripped\<close> returns a copy of the document, with the same
  messages and the same root range, whose content is what the root's nodes give when
  stripped, in order: every block or inline modifier node that has an expansion is
  replaced by what its expansion gives, one that has none is kept with its content
  stripped, every system modifier node is removed, and every other node is kept. The
  stripped tree contains no system modifier node and no modifier node with an expansion,
  and reads as the document did.
\<close>

theorem toStripped_strips:
  assumes "root doc = RootN s e content"
  shows "toStripped doc = Some (doc\<lparr>root := RootN s e (concat (map stripped content))\<rparr>)
     \<and> (\<forall>k \<in> set (subnodes (RootN s e (concat (map stripped content)))).
           \<not> is_system k \<and> \<not> has_expansion k)
     \<and> visible_text (RootN s e (concat (map stripped content))) = visible_text (root doc)"
proof -
  have eq: "concat (map stripNode content) = concat (map stripped content)"
    by (simp add: stripNode_stripped cong: map_cong)
  with assms have 1: "toStripped doc = Some (doc\<lparr>root := RootN s e (concat (map stripped content))\<rparr>)"
    by (simp add: toStripped_def stripDocument_def)
  from eq have r: "stripNode (RootN s e content) = [RootN s e (concat (map stripped content))]"
    by simp
  have 2: "\<forall>k \<in> set (subnodes (RootN s e (concat (map stripped content)))).
           \<not> is_system k \<and> \<not> has_expansion k"
  proof -
    have mem: "RootN s e (concat (map stripped content)) \<in> set (stripNode (RootN s e content))"
      unfolding r by simp
    show ?thesis using stripNode_clean[OF mem] by blast
  qed
  have 3: "visible_text (RootN s e (concat (map stripped content))) = visible_text (root doc)"
    using stripNode_visible_text[of "RootN s e content"] r assms by simp
  from 1 2 3 show ?thesis by blast
qed

theorem toStripped_strips_witness:
  "root example_document = RootN 0 (- 1)
        [ModifierN (example_block\<lparr>mtype := System\<rparr>) [ParagraphN 3 4 [TextN 3 4 ''s'']] (Some []),
         ModifierN example_block [PreN 0 1 0 1 ''p'']
           (Some [ParagraphN 0 2 [TextN 0 1 ''a'', EscapedN 1 2 ''b'']]),
         ModifierN example_block [ParagraphN 5 6 [TextN 5 6 ''c'']] None]
   \<and> toStripped example_document = Some \<lparr>root = RootN 0 (- 1)
        [ParagraphN 0 2 [TextN 0 1 ''a'', EscapedN 1 2 ''b''],
         ModifierN example_block [ParagraphN 5 6 [TextN 5 6 ''c'']] None],
      doc_messages = [UnknownModifierMessage 0 9]\<rparr>"
proof -
  have 1: "root example_document = RootN 0 (- 1)
        [ModifierN (example_block\<lparr>mtype := System\<rparr>) [ParagraphN 3 4 [TextN 3 4 ''s'']] (Some []),
         ModifierN example_block [PreN 0 1 0 1 ''p'']
           (Some [ParagraphN 0 2 [TextN 0 1 ''a'', EscapedN 1 2 ''b'']]),
         ModifierN example_block [ParagraphN 5 6 [TextN 5 6 ''c'']] None]"
    by (simp add: example_document_def)
  from toStripped_strips[OF 1] have "toStripped example_document = Some (example_document\<lparr>root := RootN 0 (- 1)
     (concat (map stripped [ModifierN (example_block\<lparr>mtype := System\<rparr>) [ParagraphN 3 4 [TextN 3 4 ''s'']] (Some []),
         ModifierN example_block [PreN 0 1 0 1 ''p'']
           (Some [ParagraphN 0 2 [TextN 0 1 ''a'', EscapedN 1 2 ''b'']]),
         ModifierN example_block [ParagraphN 5 6 [TextN 5 6 ''c'']] None]))\<rparr>)"
    by blast
  then have "toStripped example_document = Some \<lparr>root = RootN 0 (- 1)
        [ParagraphN 0 2 [TextN 0 1 ''a'', EscapedN 1 2 ''b''],
         ModifierN example_block [ParagraphN 5 6 [TextN 5 6 ''c'']] None],
      doc_messages = [UnknownModifierMessage 0 9]\<rparr>"
    by (simp add: example_document_def example_block_def)
  with 1 show ?thesis by blast
qed

subsection \<open>Longest match\<close>

lemma accept_False: "accept n st = (False, st') \<Longrightarrow> st' = st \<and> \<not> peek n st"
  by (auto simp: accept_def split: if_splits)

lemma accept_True: "accept n st = (True, st') \<Longrightarrow> st' = st\<lparr>pos := pos st + length n\<rparr> \<and> peek n st"
  by (auto simp: accept_def split: if_splits)






text \<open>The longer of the two names is the one accepted.\<close>

lemma longest_match_example:
  "find_accept (prefixes_block (new_Parser ''emph] x'' example_config () :: (unit, unit) pstate))
        (new_Parser ''emph] x'' example_config ())
      = (Some (''emph'', example_mod ''emph''), (new_Parser ''emph] x'' example_config ())\<lparr>pos := 4\<rparr>)"
  by (simp add: new_Parser_def sortModifiers_def sort_by_length_def example_config_def
          accept_def peek_def)



end
